theory Spec2Isabelle
  imports Main "HOL-Library.Word" "HOL-Library.Signed_Division"
begin

unbundle bit_operations_syntax

section \<open>Buffers, panics and decoded values\<close>

text \<open>
  A Go \<^verbatim>\<open>[]byte\<close> buffer is a list of 8-bit words; a Go \<^verbatim>\<open>string\<close> is an immutable byte
  sequence and is modelled by the same type. Every function of \<^verbatim>\<open>codecs.go\<close> that
  advances a \<^verbatim>\<open>*[]byte\<close> cursor returns the remaining buffer next to its result.
\<close>

type_synonym byte = "8 word"
type_synonym bytes = "byte list"

text \<open>
  The code reports every failure by panicking. A panic is the \<open>Inl\<close> branch of the result;
  the constructors keep apart the explicit \<^verbatim>\<open>panic(...)\<close> calls of \<^verbatim>\<open>codecs.go\<close> and the
  panics raised by the Go runtime (slice bounds, index, failed type assertion,
  \<^verbatim>\<open>make\<close> with a negative length).
\<close>

datatype error =
    SliceBoundsOutOfRange
  | IndexOutOfRange nat nat
  | MakeSliceLenOutOfRange
  | InterfaceConversion
  | UnknownDescriptorType byte bytes
  | UnknownBaseScalarType bytes
  | TypeNotImplemented bytes
  | InvalidBoolByte byte
  | NotImplemented
  | ObjectsCantBeQueryParameters
  | JSONError

text \<open>
  \<^verbatim>\<open>time.Time\<close> as the instant it denotes: Unix seconds (a signed 64-bit value) and the
  nanosecond within that second. The location of a \<^verbatim>\<open>time.Time\<close> is not modelled;
  \<^verbatim>\<open>DateTime.Encode\<close> does not read it.
\<close>

record Time =
  sec :: "64 word"
  nsec :: int

text \<open>
  The dynamic values behind Go's \<^verbatim>\<open>interface{}\<close>. A \<^verbatim>\<open>float32\<close>/\<^verbatim>\<open>float64\<close> is carried as
  its IEEE-754 bit pattern, which is what \<^verbatim>\<open>math.Float32bits\<close> and
  \<^verbatim>\<open>math.Float32frombits\<close> convert to and from without changing a bit. \<open>Nil\<close> is the nil
  interface.

  Modelled from the spec: the declarations of package \<^verbatim>\<open>types\<close> (\<^verbatim>\<open>UUID\<close>, \<^verbatim>\<open>Set\<close>, \<^verbatim>\<open>Array\<close>,
  \<^verbatim>\<open>Tuple\<close>, \<^verbatim>\<open>Object\<close>, \<^verbatim>\<open>NamedTuple\<close>) are not among the source files. By the spec and
  by their use in \<^verbatim>\<open>codecs.go\<close>, a UUID is 16 raw bytes, \<^verbatim>\<open>Set\<close>, \<^verbatim>\<open>Array\<close> and \<^verbatim>\<open>Tuple\<close> are
  ordered sequences of values, \<^verbatim>\<open>Object\<close> and \<^verbatim>\<open>NamedTuple\<close> are mappings from field name to
  value. As named types they differ from the unnamed \<^verbatim>\<open>[]interface{}\<close> and
  \<^verbatim>\<open>map[string]interface{}\<close> that the encoders assert on, so each has a constructor of
  its own.
\<close>

datatype val =
    Nil
  | VUUID bytes
  | VString bytes
  | VBytes bytes
  | VInt16 "16 word"
  | VInt32 "32 word"
  | VInt64 "64 word"
  | VFloat32 "32 word"
  | VFloat64 "64 word"
  | VBool bool
  | VTime Time
  | VDuration "64 word"
  | VSet "val list"
  | VArray "val list"
  | VTuple "val list"
  | VObject "bytes \<Rightarrow> val option"
  | VNamedTuple "bytes \<Rightarrow> val option"
  | VSlice "val list"
  | VMap "bytes \<Rightarrow> val option"

section \<open>Byte cursor primitives (package protocol)\<close>

text \<open>
  The fixed-width big-endian layouts of Go's standard \<^verbatim>\<open>encoding/binary.BigEndian\<close>.
\<close>

definition BigEndian_PutUint16 :: "16 word \<Rightarrow> bytes" where
  "BigEndian_PutUint16 v = [ucast (drop_bit 8 v), ucast v]"

definition BigEndian_Uint16 :: "bytes \<Rightarrow> 16 word" where
  "BigEndian_Uint16 b = ucast (b ! 1) OR push_bit 8 (ucast (b ! 0))"

definition BigEndian_PutUint32 :: "32 word \<Rightarrow> bytes" where
  "BigEndian_PutUint32 v =
     [ucast (drop_bit 24 v), ucast (drop_bit 16 v), ucast (drop_bit 8 v), ucast v]"

definition BigEndian_Uint32 :: "bytes \<Rightarrow> 32 word" where
  "BigEndian_Uint32 b =
     ucast (b ! 3) OR push_bit 8 (ucast (b ! 2)) OR push_bit 16 (ucast (b ! 1))
       OR push_bit 24 (ucast (b ! 0))"

definition BigEndian_PutUint64 :: "64 word \<Rightarrow> bytes" where
  "BigEndian_PutUint64 v =
     [ucast (drop_bit 56 v), ucast (drop_bit 48 v), ucast (drop_bit 40 v),
      ucast (drop_bit 32 v), ucast (drop_bit 24 v), ucast (drop_bit 16 v),
      ucast (drop_bit 8 v), ucast v]"

definition BigEndian_Uint64 :: "bytes \<Rightarrow> 64 word" where
  "BigEndian_Uint64 b =
     ucast (b ! 7) OR push_bit 8 (ucast (b ! 6)) OR push_bit 16 (ucast (b ! 5))
       OR push_bit 24 (ucast (b ! 4)) OR push_bit 32 (ucast (b ! 3))
       OR push_bit 40 (ucast (b ! 2)) OR push_bit 48 (ucast (b ! 1))
       OR push_bit 56 (ucast (b ! 0))"

text \<open>
  Modelled from the spec: package \<^verbatim>\<open>protocol\<close> (\<^verbatim>\<open>PopUint8\<close>, \<^verbatim>\<open>PopUint16\<close>, \<^verbatim>\<open>PopUint32\<close>,
  \<^verbatim>\<open>PeekUint32\<close>, \<^verbatim>\<open>PopUint64\<close>, \<^verbatim>\<open>PopUUID\<close>, \<^verbatim>\<open>PopBytes\<close>, \<^verbatim>\<open>PopString\<close> and the
  \<^verbatim>\<open>Push\<close> functions), which \<^verbatim>\<open>codecs.go\<close> imports, is not among the source files. The
  spec describes it as the byte cursor primitives that ingest/emit fixed-width integers,
  length-prefixed byte strings and UUIDs from/to a mutable byte buffer, advancing a read or
  write position, big-endian throughout, with a truncated buffer a decode error: a read
  past the end of the buffer is the slice-bounds panic of the Go runtime. A
  length-prefixed byte string is a 32-bit length followed by that many bytes.
\<close>

definition PopUint8 :: "bytes \<Rightarrow> error + byte \<times> bytes" where
  "PopUint8 bts = (case bts of [] \<Rightarrow> Inl SliceBoundsOutOfRange | b # rest \<Rightarrow> Inr (b, rest))"

definition PopUint16 :: "bytes \<Rightarrow> error + 16 word \<times> bytes" where
  "PopUint16 bts =
     (if length bts < 2 then Inl SliceBoundsOutOfRange
      else Inr (BigEndian_Uint16 bts, drop 2 bts))"

definition PopUint32 :: "bytes \<Rightarrow> error + 32 word \<times> bytes" where
  "PopUint32 bts =
     (if length bts < 4 then Inl SliceBoundsOutOfRange
      else Inr (BigEndian_Uint32 bts, drop 4 bts))"

definition PeekUint32 :: "bytes \<Rightarrow> error + 32 word" where
  "PeekUint32 bts =
     (if length bts < 4 then Inl SliceBoundsOutOfRange else Inr (BigEndian_Uint32 bts))"

definition PopUint64 :: "bytes \<Rightarrow> error + 64 word \<times> bytes" where
  "PopUint64 bts =
     (if length bts < 8 then Inl SliceBoundsOutOfRange
      else Inr (BigEndian_Uint64 bts, drop 8 bts))"

definition PopUUID :: "bytes \<Rightarrow> error + bytes \<times> bytes" where
  "PopUUID bts =
     (if length bts < 16 then Inl SliceBoundsOutOfRange
      else Inr (take 16 bts, drop 16 bts))"

definition PopBytes :: "bytes \<Rightarrow> error + bytes \<times> bytes" where
  "PopBytes bts =
     (case PopUint32 bts of
        Inl e \<Rightarrow> Inl e
      | Inr (n, rest) \<Rightarrow>
          if length rest < unat n then Inl SliceBoundsOutOfRange
          else Inr (take (unat n) rest, drop (unat n) rest))"

definition PopString :: "bytes \<Rightarrow> error + bytes \<times> bytes" where
  "PopString bts = PopBytes bts"

definition PushUint8 :: "bytes \<Rightarrow> byte \<Rightarrow> bytes" where
  "PushUint8 bts v = bts @ [v]"

definition PushUint16 :: "bytes \<Rightarrow> 16 word \<Rightarrow> bytes" where
  "PushUint16 bts v = bts @ BigEndian_PutUint16 v"

definition PushUint32 :: "bytes \<Rightarrow> 32 word \<Rightarrow> bytes" where
  "PushUint32 bts v = bts @ BigEndian_PutUint32 v"

definition PushUint64 :: "bytes \<Rightarrow> 64 word \<Rightarrow> bytes" where
  "PushUint64 bts v = bts @ BigEndian_PutUint64 v"

definition PushBytes :: "bytes \<Rightarrow> bytes \<Rightarrow> bytes" where
  "PushBytes bts v = PushUint32 bts (of_nat (length v)) @ v"

definition PushString :: "bytes \<Rightarrow> bytes \<Rightarrow> bytes" where
  "PushString bts v = PushBytes bts v"

section \<open>The DecodeEncoder interface\<close>

text \<open>
  \<^verbatim>\<open>type DecodeEncoder interface { Decode(*[]byte) interface{}; Encode(*[]byte, interface{}) }\<close>:
  a codec is the pair of its two methods. \<open>Decode\<close> returns the value and the advanced
  buffer, \<open>Encode\<close> the buffer with the encoding appended.
\<close>

record DecodeEncoder =
  Decode :: "bytes \<Rightarrow> error + val \<times> bytes"
  Encode :: "bytes \<Rightarrow> val \<Rightarrow> error + bytes"

section \<open>Scalar codecs\<close>

definition UUID_Decode :: "bytes \<Rightarrow> error + val \<times> bytes" where
  "UUID_Decode bts =
     (case PopUint32 bts of
        Inl e \<Rightarrow> Inl e
      | Inr (_, b1) \<Rightarrow>
          (case PopUUID b1 of Inl e \<Rightarrow> Inl e | Inr (u, b2) \<Rightarrow> Inr (VUUID u, b2)))"

definition UUID_Encode :: "bytes \<Rightarrow> val \<Rightarrow> error + bytes" where
  "UUID_Encode bts v =
     (case v of VUUID tmp \<Rightarrow> Inr (PushUint32 bts 16 @ tmp) | _ \<Rightarrow> Inl InterfaceConversion)"

definition String_Decode :: "bytes \<Rightarrow> error + val \<times> bytes" where
  "String_Decode bts =
     (case PopString bts of Inl e \<Rightarrow> Inl e | Inr (s, b1) \<Rightarrow> Inr (VString s, b1))"

definition String_Encode :: "bytes \<Rightarrow> val \<Rightarrow> error + bytes" where
  "String_Encode bts v =
     (case v of VString s \<Rightarrow> Inr (PushString bts s) | _ \<Rightarrow> Inl InterfaceConversion)"

definition Bytes_Decode :: "bytes \<Rightarrow> error + val \<times> bytes" where
  "Bytes_Decode bts =
     (case PopBytes bts of Inl e \<Rightarrow> Inl e | Inr (s, b1) \<Rightarrow> Inr (VBytes s, b1))"

definition Bytes_Encode :: "bytes \<Rightarrow> val \<Rightarrow> error + bytes" where
  "Bytes_Encode bts v =
     (case v of VBytes s \<Rightarrow> Inr (PushBytes bts s) | _ \<Rightarrow> Inl InterfaceConversion)"

definition Int16_Decode :: "bytes \<Rightarrow> error + val \<times> bytes" where
  "Int16_Decode bts =
     (case PopUint32 bts of
        Inl e \<Rightarrow> Inl e
      | Inr (_, b1) \<Rightarrow>
          (case PopUint16 b1 of Inl e \<Rightarrow> Inl e | Inr (x, b2) \<Rightarrow> Inr (VInt16 x, b2)))"

definition Int16_Encode :: "bytes \<Rightarrow> val \<Rightarrow> error + bytes" where
  "Int16_Encode bts v =
     (case v of VInt16 x \<Rightarrow> Inr (PushUint16 (PushUint32 bts 2) x)
      | _ \<Rightarrow> Inl InterfaceConversion)"

definition Int32_Decode :: "bytes \<Rightarrow> error + val \<times> bytes" where
  "Int32_Decode bts =
     (case PopUint32 bts of
        Inl e \<Rightarrow> Inl e
      | Inr (_, b1) \<Rightarrow>
          (case PopUint32 b1 of Inl e \<Rightarrow> Inl e | Inr (x, b2) \<Rightarrow> Inr (VInt32 x, b2)))"

definition Int32_Encode :: "bytes \<Rightarrow> val \<Rightarrow> error + bytes" where
  "Int32_Encode bts v =
     (case v of VInt32 x \<Rightarrow> Inr (PushUint32 (PushUint32 bts 4) x)
      | _ \<Rightarrow> Inl InterfaceConversion)"

definition Int64_Decode :: "bytes \<Rightarrow> error + val \<times> bytes" where
  "Int64_Decode bts =
     (case PopUint32 bts of
        Inl e \<Rightarrow> Inl e
      | Inr (_, b1) \<Rightarrow>
          (case PopUint64 b1 of Inl e \<Rightarrow> Inl e | Inr (x, b2) \<Rightarrow> Inr (VInt64 x, b2)))"

definition Int64_Encode :: "bytes \<Rightarrow> val \<Rightarrow> error + bytes" where
  "Int64_Encode bts v =
     (case v of VInt64 x \<Rightarrow> Inr (PushUint64 (PushUint32 bts 8) x)
      | _ \<Rightarrow> Inl InterfaceConversion)"

definition Float32_Decode :: "bytes \<Rightarrow> error + val \<times> bytes" where
  "Float32_Decode bts =
     (case PopUint32 bts of
        Inl e \<Rightarrow> Inl e
      | Inr (_, b1) \<Rightarrow>
          (case PopUint32 b1 of Inl e \<Rightarrow> Inl e | Inr (bits, b2) \<Rightarrow> Inr (VFloat32 bits, b2)))"

definition Float32_Encode :: "bytes \<Rightarrow> val \<Rightarrow> error + bytes" where
  "Float32_Encode bts v =
     (case v of VFloat32 bits \<Rightarrow> Inr (PushUint32 (PushUint32 bts 4) bits)
      | _ \<Rightarrow> Inl InterfaceConversion)"

definition Float64_Decode :: "bytes \<Rightarrow> error + val \<times> bytes" where
  "Float64_Decode bts =
     (case PopUint32 bts of
        Inl e \<Rightarrow> Inl e
      | Inr (_, b1) \<Rightarrow>
          (case PopUint64 b1 of Inl e \<Rightarrow> Inl e | Inr (bits, b2) \<Rightarrow> Inr (VFloat64 bits, b2)))"

definition Float64_Encode :: "bytes \<Rightarrow> val \<Rightarrow> error + bytes" where
  "Float64_Encode bts v =
     (case v of VFloat64 bits \<Rightarrow> Inr (PushUint64 (PushUint32 bts 8) bits)
      | _ \<Rightarrow> Inl InterfaceConversion)"

definition Bool_Decode :: "bytes \<Rightarrow> error + val \<times> bytes" where
  "Bool_Decode bts =
     (case PopUint32 bts of
        Inl e \<Rightarrow> Inl e
      | Inr (_, b1) \<Rightarrow>
          (case PopUint8 b1 of
             Inl e \<Rightarrow> Inl e
           | Inr (v, b2) \<Rightarrow>
               if v > 1 then Inl (InvalidBoolByte v) else Inr (VBool (v \<noteq> 0), b2)))"

definition Bool_Encode :: "bytes \<Rightarrow> val \<Rightarrow> error + bytes" where
  "Bool_Encode bts v =
     (case v of
        VBool b \<Rightarrow> Inr (PushUint8 (PushUint32 bts 1) (if b then 1 else 0))
      | _ \<Rightarrow> Inl InterfaceConversion)"

text \<open>
  Go's \<^verbatim>\<open>/\<close> and \<^verbatim>\<open>%\<close> on \<^verbatim>\<open>int64\<close> truncate towards zero
  (\<open>sdiv\<close> and \<open>smod\<close> on the signed readings).
\<close>

definition int64_div :: "64 word \<Rightarrow> 64 word \<Rightarrow> 64 word" where
  "int64_div a b = word_of_int (sint a sdiv sint b)"

definition int64_rem :: "64 word \<Rightarrow> 64 word \<Rightarrow> 64 word" where
  "int64_rem a b = word_of_int (sint a smod sint b)"

text \<open>
  The three functions of Go's standard package \<^verbatim>\<open>time\<close> that the codecs call.
  \<^verbatim>\<open>time.Unix(sec, nsec)\<close> normalises a nanosecond count outside \<open>[0, 999999999]\<close>;
  \<^verbatim>\<open>t.Unix()\<close> is the Unix second of \<open>t\<close>; \<^verbatim>\<open>t.Sub(u)\<close> is the nanosecond difference,
  saturated at the least and greatest \<^verbatim>\<open>time.Duration\<close>.
\<close>

definition time_Unix :: "64 word \<Rightarrow> 64 word \<Rightarrow> Time" where
  "time_Unix s ns =
     (if sint ns < 0 \<or> 1000000000 \<le> sint ns then
        (let n = int64_div ns 1000000000;
             s1 = s + n;
             ns1 = ns - n * 1000000000
         in if sint ns1 < 0 then \<lparr>sec = s1 - 1, nsec = sint (ns1 + 1000000000)\<rparr>
            else \<lparr>sec = s1, nsec = sint ns1\<rparr>)
      else \<lparr>sec = s, nsec = sint ns\<rparr>)"

definition Time_Unix :: "Time \<Rightarrow> 64 word" where
  "Time_Unix t = sec t"

definition Time_Sub :: "Time \<Rightarrow> Time \<Rightarrow> 64 word" where
  "Time_Sub t u =
     (let d = (sint (sec t) - sint (sec u)) * 1000000000 + (nsec t - nsec u)
      in if d < - (2 ^ 63) then - (2 ^ 63)
         else if 2 ^ 63 - 1 < d then 2 ^ 63 - 1
         else word_of_int d)"

definition DateTime_Decode :: "bytes \<Rightarrow> error + val \<times> bytes" where
  "DateTime_Decode bts =
     (case PopUint32 bts of
        Inl e \<Rightarrow> Inl e
      | Inr (_, b1) \<Rightarrow>
          (case PopUint64 b1 of
             Inl e \<Rightarrow> Inl e
           | Inr (v, b2) \<Rightarrow>
               (let seconds = int64_div v 1000000;
                    microseconds = int64_rem v 1000000
                in Inr (VTime (time_Unix (946684800 + seconds) (1000 * microseconds)), b2))))"

definition DateTime_Encode :: "bytes \<Rightarrow> val \<Rightarrow> error + bytes" where
  "DateTime_Encode bts v =
     (case v of
        VTime date \<Rightarrow>
          (let seconds = Time_Unix date - 946684800;
               nanoseconds = Time_Sub date (time_Unix (Time_Unix date) 0);
               microseconds = seconds * 1000000 + int64_div nanoseconds 1000
           in Inr (PushUint64 (PushUint32 bts 8) microseconds))
      | _ \<Rightarrow> Inl InterfaceConversion)"

text \<open>A \<^verbatim>\<open>time.Duration\<close> is an \<^verbatim>\<open>int64\<close> count of nanoseconds.\<close>

definition Duration_Decode :: "bytes \<Rightarrow> error + val \<times> bytes" where
  "Duration_Decode bts =
     (case PopUint32 bts of
        Inl e \<Rightarrow> Inl e
      | Inr (_, b1) \<Rightarrow>
          (case PopUint64 b1 of
             Inl e \<Rightarrow> Inl e
           | Inr (microseconds, b2) \<Rightarrow>
               (case PopUint32 b2 of
                  Inl e \<Rightarrow> Inl e
                | Inr (_, b3) \<Rightarrow>
                    (case PopUint32 b3 of
                       Inl e \<Rightarrow> Inl e
                     | Inr (_, b4) \<Rightarrow> Inr (VDuration (microseconds * 1000), b4)))))"

definition Duration_Encode :: "bytes \<Rightarrow> val \<Rightarrow> error + bytes" where
  "Duration_Encode bts v =
     (case v of
        VDuration duration \<Rightarrow>
          Inr (PushUint32 (PushUint32 (PushUint64 (PushUint32 bts 16)
                 (int64_div duration 1000)) 0) 0)
      | _ \<Rightarrow> Inl InterfaceConversion)"

text \<open>
  \<^verbatim>\<open>json.Marshal\<close> and \<^verbatim>\<open>json.Unmarshal\<close> belong to Go's standard library; the JSON codec
  takes them as a parameter. An \<^verbatim>\<open>err != nil\<close> of either is the \<open>Inl\<close> branch, which the
  codec turns into a panic. \<^verbatim>\<open>(*bts)[:n-1]\<close> is computed on \<^verbatim>\<open>uint32\<close>, so a length of 0
  wraps around; the slice bound is checked against the length of the buffer.
\<close>

record json_lib =
  Marshal :: "val \<Rightarrow> error + bytes"
  Unmarshal :: "bytes \<Rightarrow> error + val"

definition JSON_Decode :: "json_lib \<Rightarrow> bytes \<Rightarrow> error + val \<times> bytes" where
  "JSON_Decode J bts =
     (case PopUint32 bts of
        Inl e \<Rightarrow> Inl e
      | Inr (n, b1) \<Rightarrow>
          (case PopUint8 b1 of
             Inl e \<Rightarrow> Inl e
           | Inr (_, b2) \<Rightarrow>
               if length b2 < unat (n - 1) then Inl SliceBoundsOutOfRange
               else (case Unmarshal J (take (unat (n - 1)) b2) of
                       Inl e \<Rightarrow> Inl e
                     | Inr v \<Rightarrow> Inr (v, drop (unat (n - 1)) b2))))"

definition JSON_Encode :: "json_lib \<Rightarrow> bytes \<Rightarrow> val \<Rightarrow> error + bytes" where
  "JSON_Encode J bts v =
     (case Marshal J v of
        Inl e \<Rightarrow> Inl e
      | Inr buf \<Rightarrow> Inr (PushUint8 (PushUint32 bts (of_nat (1 + length buf))) 1 @ buf))"

definition UUID_codec :: DecodeEncoder where
  "UUID_codec = \<lparr>Decode = UUID_Decode, Encode = UUID_Encode\<rparr>"

definition String_codec :: DecodeEncoder where
  "String_codec = \<lparr>Decode = String_Decode, Encode = String_Encode\<rparr>"

definition Bytes_codec :: DecodeEncoder where
  "Bytes_codec = \<lparr>Decode = Bytes_Decode, Encode = Bytes_Encode\<rparr>"

definition Int16_codec :: DecodeEncoder where
  "Int16_codec = \<lparr>Decode = Int16_Decode, Encode = Int16_Encode\<rparr>"

definition Int32_codec :: DecodeEncoder where
  "Int32_codec = \<lparr>Decode = Int32_Decode, Encode = Int32_Encode\<rparr>"

definition Int64_codec :: DecodeEncoder where
  "Int64_codec = \<lparr>Decode = Int64_Decode, Encode = Int64_Encode\<rparr>"

definition Float32_codec :: DecodeEncoder where
  "Float32_codec = \<lparr>Decode = Float32_Decode, Encode = Float32_Encode\<rparr>"

definition Float64_codec :: DecodeEncoder where
  "Float64_codec = \<lparr>Decode = Float64_Decode, Encode = Float64_Encode\<rparr>"

definition Bool_codec :: DecodeEncoder where
  "Bool_codec = \<lparr>Decode = Bool_Decode, Encode = Bool_Encode\<rparr>"

definition DateTime_codec :: DecodeEncoder where
  "DateTime_codec = \<lparr>Decode = DateTime_Decode, Encode = DateTime_Encode\<rparr>"

definition Duration_codec :: DecodeEncoder where
  "Duration_codec = \<lparr>Decode = Duration_Decode, Encode = Duration_Encode\<rparr>"

definition JSON_codec :: "json_lib \<Rightarrow> DecodeEncoder" where
  "JSON_codec J = \<lparr>Decode = JSON_Decode J, Encode = JSON_Encode J\<rparr>"

section \<open>Set and Array codecs\<close>

text \<open>
  \<^verbatim>\<open>out := make(types.Set, elmCount)\<close> panics for a negative \<open>elmCount\<close> and otherwise
  yields \<open>elmCount\<close> nil entries, which the loop overwrites by index. \<open>upper - lower + 1\<close>
  is computed on \<^verbatim>\<open>int32\<close> and wraps around.
\<close>

function Set_Decode_loop ::
  "DecodeEncoder \<Rightarrow> nat \<Rightarrow> nat \<Rightarrow> bytes \<Rightarrow> val list \<Rightarrow> error + val list \<times> bytes" where
  "Set_Decode_loop child i elmCount buf out =
     (if i < elmCount then
        (case Decode child buf of
           Inl e \<Rightarrow> Inl e
         | Inr (v, buf') \<Rightarrow> Set_Decode_loop child (Suc i) elmCount buf' (out[i := v]))
      else Inr (out, buf))"
  by pat_completeness auto
termination
  by (relation "measure (\<lambda>(child, i, elmCount, buf, out). elmCount - i)") auto

declare Set_Decode_loop.simps [simp del]

definition Set_Decode :: "DecodeEncoder \<Rightarrow> bytes \<Rightarrow> error + val \<times> bytes" where
  "Set_Decode child bts =
     (case PopBytes bts of
        Inl e \<Rightarrow> Inl e
      | Inr (buf, rest) \<Rightarrow>
          (case PopUint32 buf of
             Inl e \<Rightarrow> Inl e
           | Inr (dimCount, b1) \<Rightarrow>
               if dimCount = 0 then Inr (VSet [], rest)
               else
                 (case PopUint32 b1 of
                    Inl e \<Rightarrow> Inl e
                  | Inr (_, b2) \<Rightarrow>
                 (case PopUint32 b2 of
                    Inl e \<Rightarrow> Inl e
                  | Inr (_, b3) \<Rightarrow>
                 (case PopUint32 b3 of
                    Inl e \<Rightarrow> Inl e
                  | Inr (upper, b4) \<Rightarrow>
                 (case PopUint32 b4 of
                    Inl e \<Rightarrow> Inl e
                  | Inr (lower, b5) \<Rightarrow>
                      (let elmCount = sint (upper - lower + 1)
                       in if elmCount < 0 then Inl MakeSliceLenOutOfRange
                          else
                            (case Set_Decode_loop child 0 (nat elmCount) b5
                                    (replicate (nat elmCount) Nil) of
                               Inl e \<Rightarrow> Inl e
                             | Inr (out, _) \<Rightarrow> Inr (VSet out, rest)))))))))"

definition Set_Encode :: "bytes \<Rightarrow> val \<Rightarrow> error + bytes" where
  "Set_Encode bts v = Inl NotImplemented"

definition Set_codec :: "DecodeEncoder \<Rightarrow> DecodeEncoder" where
  "Set_codec child = \<lparr>Decode = Set_Decode child, Encode = Set_Encode\<rparr>"

function Array_Decode_loop ::
  "DecodeEncoder \<Rightarrow> nat \<Rightarrow> nat \<Rightarrow> bytes \<Rightarrow> val list \<Rightarrow> error + val list \<times> bytes" where
  "Array_Decode_loop child i elmCount buf out =
     (if i < elmCount then
        (case Decode child buf of
           Inl e \<Rightarrow> Inl e
         | Inr (v, buf') \<Rightarrow> Array_Decode_loop child (Suc i) elmCount buf' (out[i := v]))
      else Inr (out, buf))"
  by pat_completeness auto
termination
  by (relation "measure (\<lambda>(child, i, elmCount, buf, out). elmCount - i)") auto

declare Array_Decode_loop.simps [simp del]

definition Array_Decode :: "DecodeEncoder \<Rightarrow> bytes \<Rightarrow> error + val \<times> bytes" where
  "Array_Decode child bts =
     (case PopBytes bts of
        Inl e \<Rightarrow> Inl e
      | Inr (buf, rest) \<Rightarrow>
          (case PopUint32 buf of
             Inl e \<Rightarrow> Inl e
           | Inr (dimCount, b1) \<Rightarrow>
               if dimCount = 0 then Inr (VArray [], rest)
               else
                 (case PopUint32 b1 of
                    Inl e \<Rightarrow> Inl e
                  | Inr (_, b2) \<Rightarrow>
                 (case PopUint32 b2 of
                    Inl e \<Rightarrow> Inl e
                  | Inr (_, b3) \<Rightarrow>
                 (case PopUint32 b3 of
                    Inl e \<Rightarrow> Inl e
                  | Inr (upper, b4) \<Rightarrow>
                 (case PopUint32 b4 of
                    Inl e \<Rightarrow> Inl e
                  | Inr (lower, b5) \<Rightarrow>
                      (let elmCount = sint (upper - lower + 1)
                       in if elmCount < 0 then Inl MakeSliceLenOutOfRange
                          else
                            (case Array_Decode_loop child 0 (nat elmCount) b5
                                    (replicate (nat elmCount) Nil) of
                               Inl e \<Rightarrow> Inl e
                             | Inr (out, _) \<Rightarrow> Inr (VArray out, rest)))))))))"

text \<open>
  \<^verbatim>\<open>in := val.([]interface{})\<close> is asserted after the five header words have been pushed
  onto \<open>tmp\<close>; a failed assertion panics and nothing reaches \<open>bts\<close>.
\<close>

function Array_Encode_loop ::
  "DecodeEncoder \<Rightarrow> val list \<Rightarrow> nat \<Rightarrow> nat \<Rightarrow> bytes \<Rightarrow> error + bytes" where
  "Array_Encode_loop child xs i elmCount tmp =
     (if i < elmCount then
        (case Encode child tmp (xs ! i) of
           Inl e \<Rightarrow> Inl e
         | Inr tmp' \<Rightarrow> Array_Encode_loop child xs (Suc i) elmCount tmp')
      else Inr tmp)"
  by pat_completeness auto
termination
  by (relation "measure (\<lambda>(child, xs, i, elmCount, tmp). elmCount - i)") auto

declare Array_Encode_loop.simps [simp del]

definition Array_Encode :: "DecodeEncoder \<Rightarrow> bytes \<Rightarrow> val \<Rightarrow> error + bytes" where
  "Array_Encode child bts v =
     (let tmp = PushUint32 (PushUint32 (PushUint32 (PushUint32 (PushUint32 [] 1) 0) 0) 3) 1
      in case v of
           VSlice xs \<Rightarrow>
             (case Array_Encode_loop child xs 0 (length xs) tmp of
                Inl e \<Rightarrow> Inl e
              | Inr tmp' \<Rightarrow> Inr (PushUint32 bts (of_nat (length tmp')) @ tmp'))
         | _ \<Rightarrow> Inl InterfaceConversion)"

definition Array_codec :: "DecodeEncoder \<Rightarrow> DecodeEncoder" where
  "Array_codec child = \<lparr>Decode = Array_Decode child, Encode = Array_Encode child\<rparr>"

section \<open>Object codec\<close>

record objectField =
  isImplicit :: bool
  isLinkProperty :: bool
  isLink :: bool
  name :: bytes
  codec :: DecodeEncoder

text \<open>
  \<open>elmCount\<close> is \<^verbatim>\<open>int(int32(...))\<close>; the loop \<^verbatim>\<open>for i := 0; i < elmCount; i++\<close> runs
  \<open>nat elmCount\<close> times (not at all for a negative count, as \<^verbatim>\<open>make(types.Object)\<close>
  takes no length). \<^verbatim>\<open>c.fields[i]\<close> panics once \<open>i\<close> reaches the number of fields
  (\<open>flds\<close> stands for the struct member \<^verbatim>\<open>fields\<close>).
\<close>

function Object_Decode_loop ::
  "objectField list \<Rightarrow> nat \<Rightarrow> nat \<Rightarrow> bytes \<Rightarrow> (bytes \<Rightarrow> val option)
     \<Rightarrow> error + (bytes \<Rightarrow> val option) \<times> bytes" where
  "Object_Decode_loop flds i elmCount buf out =
     (if i < elmCount then
        (case PopUint32 buf of
           Inl e \<Rightarrow> Inl e
         | Inr (_, b1) \<Rightarrow>
             if length flds \<le> i then Inl (IndexOutOfRange i (length flds))
             else
               (let field = flds ! i
                in case PeekUint32 b1 of
                     Inl e \<Rightarrow> Inl e
                   | Inr w \<Rightarrow>
                       if sint w = - 1 then
                         (case PopUint32 b1 of
                            Inl e \<Rightarrow> Inl e
                          | Inr (_, b2) \<Rightarrow>
                              Object_Decode_loop flds (Suc i) elmCount b2
                                (out(objectField.name field \<mapsto> VSet [])))
                       else
                         (case Decode (objectField.codec field) b1 of
                            Inl e \<Rightarrow> Inl e
                          | Inr (v, b2) \<Rightarrow>
                              Object_Decode_loop flds (Suc i) elmCount b2
                                (out(objectField.name field \<mapsto> v)))))
      else Inr (out, buf))"
  by pat_completeness auto
termination
  by (relation "measure (\<lambda>(flds, i, elmCount, buf, out). elmCount - i)") auto

declare Object_Decode_loop.simps [simp del]

definition Object_Decode :: "objectField list \<Rightarrow> bytes \<Rightarrow> error + val \<times> bytes" where
  "Object_Decode flds bts =
     (case PopBytes bts of
        Inl e \<Rightarrow> Inl e
      | Inr (buf, rest) \<Rightarrow>
          (case PopUint32 buf of
             Inl e \<Rightarrow> Inl e
           | Inr (n, b1) \<Rightarrow>
               (let elmCount = sint n
                in case Object_Decode_loop flds 0 (nat elmCount) b1 Map.empty of
                     Inl e \<Rightarrow> Inl e
                   | Inr (out, _) \<Rightarrow> Inr (VObject out, rest))))"

definition Object_Encode :: "bytes \<Rightarrow> val \<Rightarrow> error + bytes" where
  "Object_Encode bts v = Inl ObjectsCantBeQueryParameters"

definition Object_codec :: "objectField list \<Rightarrow> DecodeEncoder" where
  "Object_codec flds = \<lparr>Decode = Object_Decode flds, Encode = Object_Encode\<rparr>"

section \<open>Tuple and NamedTuple codecs\<close>

function Tuple_Decode_loop ::
  "DecodeEncoder list \<Rightarrow> nat \<Rightarrow> nat \<Rightarrow> bytes \<Rightarrow> val list \<Rightarrow> error + val list \<times> bytes" where
  "Tuple_Decode_loop flds i elmCount buf out =
     (if i < elmCount then
        (case PopUint32 buf of
           Inl e \<Rightarrow> Inl e
         | Inr (_, b1) \<Rightarrow>
             if length flds \<le> i then Inl (IndexOutOfRange i (length flds))
             else
               (case Decode (flds ! i) b1 of
                  Inl e \<Rightarrow> Inl e
                | Inr (v, b2) \<Rightarrow> Tuple_Decode_loop flds (Suc i) elmCount b2 (out[i := v])))
      else Inr (out, buf))"
  by pat_completeness auto
termination
  by (relation "measure (\<lambda>(flds, i, elmCount, buf, out). elmCount - i)") auto

declare Tuple_Decode_loop.simps [simp del]

definition Tuple_Decode :: "DecodeEncoder list \<Rightarrow> bytes \<Rightarrow> error + val \<times> bytes" where
  "Tuple_Decode flds bts =
     (case PopBytes bts of
        Inl e \<Rightarrow> Inl e
      | Inr (buf, rest) \<Rightarrow>
          (case PopUint32 buf of
             Inl e \<Rightarrow> Inl e
           | Inr (n, b1) \<Rightarrow>
               (let elmCount = sint n
                in if elmCount < 0 then Inl MakeSliceLenOutOfRange
                   else
                     (case Tuple_Decode_loop flds 0 (nat elmCount) b1
                             (replicate (nat elmCount) Nil) of
                        Inl e \<Rightarrow> Inl e
                      | Inr (out, _) \<Rightarrow> Inr (VTuple out, rest)))))"

function Tuple_Encode_loop ::
  "DecodeEncoder list \<Rightarrow> val list \<Rightarrow> nat \<Rightarrow> nat \<Rightarrow> bytes \<Rightarrow> error + bytes" where
  "Tuple_Encode_loop flds xs i elmCount tmp =
     (if i < elmCount then
        (let tmp1 = PushUint32 tmp 0
         in if length xs \<le> i then Inl (IndexOutOfRange i (length xs))
            else
              (case Encode (flds ! i) tmp1 (xs ! i) of
                 Inl e \<Rightarrow> Inl e
               | Inr tmp2 \<Rightarrow> Tuple_Encode_loop flds xs (Suc i) elmCount tmp2))
      else Inr tmp)"
  by pat_completeness auto
termination
  by (relation "measure (\<lambda>(flds, xs, i, elmCount, tmp). elmCount - i)") auto

declare Tuple_Encode_loop.simps [simp del]

definition Tuple_Encode :: "DecodeEncoder list \<Rightarrow> bytes \<Rightarrow> val \<Rightarrow> error + bytes" where
  "Tuple_Encode flds bts v =
     (let elmCount = length flds
      in if elmCount = 0 then Inr (PushUint32 (PushUint32 bts 4) (of_nat elmCount))
         else
           (let tmp = PushUint32 [] (of_nat elmCount)
            in case v of
                 VSlice xs \<Rightarrow>
                   (case Tuple_Encode_loop flds xs 0 elmCount tmp of
                      Inl e \<Rightarrow> Inl e
                    | Inr tmp' \<Rightarrow> Inr (PushUint32 bts (of_nat (length tmp')) @ tmp'))
               | _ \<Rightarrow> Inl InterfaceConversion))"

definition Tuple_codec :: "DecodeEncoder list \<Rightarrow> DecodeEncoder" where
  "Tuple_codec flds = \<lparr>Decode = Tuple_Decode flds, Encode = Tuple_Encode flds\<rparr>"

record namedTupleField =
  name :: bytes
  codec :: DecodeEncoder

function NamedTuple_Decode_loop ::
  "namedTupleField list \<Rightarrow> nat \<Rightarrow> nat \<Rightarrow> bytes \<Rightarrow> (bytes \<Rightarrow> val option)
     \<Rightarrow> error + (bytes \<Rightarrow> val option) \<times> bytes" where
  "NamedTuple_Decode_loop flds i elmCount buf out =
     (if i < elmCount then
        (case PopUint32 buf of
           Inl e \<Rightarrow> Inl e
         | Inr (_, b1) \<Rightarrow>
             if length flds \<le> i then Inl (IndexOutOfRange i (length flds))
             else
               (let field = flds ! i
                in case Decode (namedTupleField.codec field) b1 of
                     Inl e \<Rightarrow> Inl e
                   | Inr (v, b2) \<Rightarrow>
                       NamedTuple_Decode_loop flds (Suc i) elmCount b2
                         (out(namedTupleField.name field \<mapsto> v))))
      else Inr (out, buf))"
  by pat_completeness auto
termination
  by (relation "measure (\<lambda>(flds, i, elmCount, buf, out). elmCount - i)") auto

declare NamedTuple_Decode_loop.simps [simp del]

definition NamedTuple_Decode :: "namedTupleField list \<Rightarrow> bytes \<Rightarrow> error + val \<times> bytes" where
  "NamedTuple_Decode flds bts =
     (case PopBytes bts of
        Inl e \<Rightarrow> Inl e
      | Inr (buf, rest) \<Rightarrow>
          (case PopUint32 buf of
             Inl e \<Rightarrow> Inl e
           | Inr (n, b1) \<Rightarrow>
               (let elmCount = sint n
                in case NamedTuple_Decode_loop flds 0 (nat elmCount) b1 Map.empty of
                     Inl e \<Rightarrow> Inl e
                   | Inr (out, _) \<Rightarrow> Inr (VNamedTuple out, rest))))"

text \<open>
  \<^verbatim>\<open>in[field.name]\<close> on a Go map yields the zero value of the element type when the key
  is absent: the nil interface.
\<close>

definition map_index :: "(bytes \<Rightarrow> val option) \<Rightarrow> bytes \<Rightarrow> val" where
  "map_index m k = (case m k of None \<Rightarrow> Nil | Some v \<Rightarrow> v)"

function NamedTuple_Encode_loop ::
  "namedTupleField list \<Rightarrow> (bytes \<Rightarrow> val option) \<Rightarrow> nat \<Rightarrow> nat \<Rightarrow> bytes \<Rightarrow> error + bytes" where
  "NamedTuple_Encode_loop flds m i elmCount tmp =
     (if i < elmCount then
        (let tmp1 = PushUint32 tmp 0;
             field = flds ! i
         in case Encode (namedTupleField.codec field) tmp1
                   (map_index m (namedTupleField.name field)) of
              Inl e \<Rightarrow> Inl e
            | Inr tmp2 \<Rightarrow> NamedTuple_Encode_loop flds m (Suc i) elmCount tmp2)
      else Inr tmp)"
  by pat_completeness auto
termination
  by (relation "measure (\<lambda>(flds, m, i, elmCount, tmp). elmCount - i)") auto

declare NamedTuple_Encode_loop.simps [simp del]

definition NamedTuple_Encode :: "namedTupleField list \<Rightarrow> bytes \<Rightarrow> val \<Rightarrow> error + bytes" where
  "NamedTuple_Encode flds bts v =
     (let elmCount = length flds;
          tmp = PushUint32 [] (of_nat elmCount)
      in case v of
           VMap m \<Rightarrow>
             (case NamedTuple_Encode_loop flds m 0 elmCount tmp of
                Inl e \<Rightarrow> Inl e
              | Inr tmp' \<Rightarrow> Inr (PushUint32 bts (of_nat (length tmp')) @ tmp'))
         | _ \<Rightarrow> Inl InterfaceConversion)"

definition NamedTuple_codec :: "namedTupleField list \<Rightarrow> DecodeEncoder" where
  "NamedTuple_codec flds =
     \<lparr>Decode = NamedTuple_Decode flds, Encode = NamedTuple_Encode flds\<rparr>"

section \<open>Descriptor stream parser\<close>

text \<open>The sixteen bytes \<^verbatim>\<open>types.UUID{0, \<dots>, 0, 1, k}\<close> of a base scalar type.\<close>

definition base_scalar_id :: "byte \<Rightarrow> bytes" where
  "base_scalar_id k = [0, 0, 0, 0, 0, 0, 0, 0, 0, 0, 0, 0, 0, 0, 1, k]"

definition getBaseScalarCodec :: "json_lib \<Rightarrow> bytes \<Rightarrow> error + DecodeEncoder" where
  "getBaseScalarCodec J uid =
     (if uid = base_scalar_id 0 then Inr UUID_codec
      else if uid = base_scalar_id 1 then Inr String_codec
      else if uid = base_scalar_id 2 then Inr Bytes_codec
      else if uid = base_scalar_id 3 then Inr Int16_codec
      else if uid = base_scalar_id 4 then Inr Int32_codec
      else if uid = base_scalar_id 5 then Inr Int64_codec
      else if uid = base_scalar_id 6 then Inr Float32_codec
      else if uid = base_scalar_id 7 then Inr Float64_codec
      else if uid = base_scalar_id 8 then Inl (TypeNotImplemented uid)
      else if uid = base_scalar_id 9 then Inr Bool_codec
      else if uid = base_scalar_id 10 then Inr DateTime_codec
      else if uid = base_scalar_id 11 then Inl (TypeNotImplemented uid)
      else if uid = base_scalar_id 12 then Inl (TypeNotImplemented uid)
      else if uid = base_scalar_id 13 then Inl (TypeNotImplemented uid)
      else if uid = base_scalar_id 14 then Inr Duration_codec
      else if uid = base_scalar_id 15 then Inr (JSON_codec J)
      else if uid = base_scalar_id 16 then Inl (TypeNotImplemented uid)
      else Inl (UnknownBaseScalarType uid))"

text \<open>
  \<^verbatim>\<open>codecs[n]\<close> on the list of codecs built so far: the Go runtime panics when the index
  is not below the length.
\<close>

definition popSetCodec ::
  "bytes \<Rightarrow> bytes \<Rightarrow> DecodeEncoder list \<Rightarrow> error + DecodeEncoder \<times> bytes" where
  "popSetCodec bts uid codecs =
     (case PopUint16 bts of
        Inl e \<Rightarrow> Inl e
      | Inr (n, b1) \<Rightarrow>
          if length codecs \<le> unat n then Inl (IndexOutOfRange (unat n) (length codecs))
          else Inr (Set_codec (codecs ! unat n), b1))"

function popObjectCodec_loop ::
  "DecodeEncoder list \<Rightarrow> nat \<Rightarrow> nat \<Rightarrow> bytes \<Rightarrow> objectField list
     \<Rightarrow> error + objectField list \<times> bytes" where
  "popObjectCodec_loop codecs i elmCount bts flds =
     (if i < elmCount then
        (case PopUint8 bts of
           Inl e \<Rightarrow> Inl e
         | Inr (flags, b1) \<Rightarrow>
        (case PopString b1 of
           Inl e \<Rightarrow> Inl e
         | Inr (nm, b2) \<Rightarrow>
        (case PopUint16 b2 of
           Inl e \<Rightarrow> Inl e
         | Inr (index, b3) \<Rightarrow>
             if length codecs \<le> unat index
             then Inl (IndexOutOfRange (unat index) (length codecs))
             else
               popObjectCodec_loop codecs (Suc i) elmCount b3
                 (flds @ [\<lparr>isImplicit = (flags AND 1 \<noteq> 0),
                            isLinkProperty = (flags AND 2 \<noteq> 0),
                            isLink = (flags AND 4 \<noteq> 0),
                            name = nm,
                            codec = codecs ! unat index\<rparr>]))))
      else Inr (flds, bts))"
  by pat_completeness auto
termination
  by (relation "measure (\<lambda>(codecs, i, elmCount, bts, flds). elmCount - i)") auto

declare popObjectCodec_loop.simps [simp del]

definition popObjectCodec ::
  "bytes \<Rightarrow> bytes \<Rightarrow> DecodeEncoder list \<Rightarrow> error + DecodeEncoder \<times> bytes" where
  "popObjectCodec bts uid codecs =
     (case PopUint16 bts of
        Inl e \<Rightarrow> Inl e
      | Inr (n, b1) \<Rightarrow>
          (case popObjectCodec_loop codecs 0 (unat n) b1 [] of
             Inl e \<Rightarrow> Inl e
           | Inr (flds, b2) \<Rightarrow> Inr (Object_codec flds, b2)))"

function popTupleCodec_loop ::
  "DecodeEncoder list \<Rightarrow> nat \<Rightarrow> nat \<Rightarrow> bytes \<Rightarrow> DecodeEncoder list
     \<Rightarrow> error + DecodeEncoder list \<times> bytes" where
  "popTupleCodec_loop codecs i elmCount bts flds =
     (if i < elmCount then
        (case PopUint16 bts of
           Inl e \<Rightarrow> Inl e
         | Inr (index, b1) \<Rightarrow>
             if length codecs \<le> unat index
             then Inl (IndexOutOfRange (unat index) (length codecs))
             else popTupleCodec_loop codecs (Suc i) elmCount b1 (flds @ [codecs ! unat index]))
      else Inr (flds, bts))"
  by pat_completeness auto
termination
  by (relation "measure (\<lambda>(codecs, i, elmCount, bts, flds). elmCount - i)") auto

declare popTupleCodec_loop.simps [simp del]

definition popTupleCodec ::
  "bytes \<Rightarrow> bytes \<Rightarrow> DecodeEncoder list \<Rightarrow> error + DecodeEncoder \<times> bytes" where
  "popTupleCodec bts uid codecs =
     (case PopUint16 bts of
        Inl e \<Rightarrow> Inl e
      | Inr (n, b1) \<Rightarrow>
          (case popTupleCodec_loop codecs 0 (unat n) b1 [] of
             Inl e \<Rightarrow> Inl e
           | Inr (flds, b2) \<Rightarrow> Inr (Tuple_codec flds, b2)))"

function popNamedTupleCodec_loop ::
  "DecodeEncoder list \<Rightarrow> nat \<Rightarrow> nat \<Rightarrow> bytes \<Rightarrow> namedTupleField list
     \<Rightarrow> error + namedTupleField list \<times> bytes" where
  "popNamedTupleCodec_loop codecs i elmCount bts flds =
     (if i < elmCount then
        (case PopString bts of
           Inl e \<Rightarrow> Inl e
         | Inr (nm, b1) \<Rightarrow>
        (case PopUint16 b1 of
           Inl e \<Rightarrow> Inl e
         | Inr (index, b2) \<Rightarrow>
             if length codecs \<le> unat index
             then Inl (IndexOutOfRange (unat index) (length codecs))
             else
               popNamedTupleCodec_loop codecs (Suc i) elmCount b2
                 (flds @ [\<lparr>name = nm, codec = codecs ! unat index\<rparr>])))
      else Inr (flds, bts))"
  by pat_completeness auto
termination
  by (relation "measure (\<lambda>(codecs, i, elmCount, bts, flds). elmCount - i)") auto

declare popNamedTupleCodec_loop.simps [simp del]

definition popNamedTupleCodec ::
  "bytes \<Rightarrow> bytes \<Rightarrow> DecodeEncoder list \<Rightarrow> error + DecodeEncoder \<times> bytes" where
  "popNamedTupleCodec bts uid codecs =
     (case PopUint16 bts of
        Inl e \<Rightarrow> Inl e
      | Inr (n, b1) \<Rightarrow>
          (case popNamedTupleCodec_loop codecs 0 (unat n) b1 [] of
             Inl e \<Rightarrow> Inl e
           | Inr (flds, b2) \<Rightarrow> Inr (NamedTuple_codec flds, b2)))"

function popArrayCodec_loop :: "nat \<Rightarrow> nat \<Rightarrow> bytes \<Rightarrow> error + bytes" where
  "popArrayCodec_loop i n bts =
     (if i < n then
        (case PopUint32 bts of
           Inl e \<Rightarrow> Inl e
         | Inr (_, b1) \<Rightarrow> popArrayCodec_loop (Suc i) n b1)
      else Inr bts)"
  by pat_completeness auto
termination
  by (relation "measure (\<lambda>(i, n, bts). n - i)") auto

declare popArrayCodec_loop.simps [simp del]

definition popArrayCodec ::
  "bytes \<Rightarrow> bytes \<Rightarrow> DecodeEncoder list \<Rightarrow> error + DecodeEncoder \<times> bytes" where
  "popArrayCodec bts uid codecs =
     (case PopUint16 bts of
        Inl e \<Rightarrow> Inl e
      | Inr (index, b1) \<Rightarrow>
          (case PopUint16 b1 of
             Inl e \<Rightarrow> Inl e
           | Inr (n, b2) \<Rightarrow>
               (case popArrayCodec_loop 0 (unat n) b2 of
                  Inl e \<Rightarrow> Inl e
                | Inr b3 \<Rightarrow>
                    if length codecs \<le> unat index
                    then Inl (IndexOutOfRange (unat index) (length codecs))
                    else Inr (Array_codec (codecs ! unat index), b3))))"

text \<open>
  The \<^verbatim>\<open>switch descriptorType\<close> of \<^verbatim>\<open>Pop\<close>. The constants are
  \<^verbatim>\<open>setType = 0, objectType = 1, baseScalarType = 2, scalarType = 3, tupleType = 4,
  namedTupleType = 5, arrayType = 6, enumType = 7\<close>; \<^verbatim>\<open>scalarType\<close> and \<^verbatim>\<open>enumType\<close> have no
  case and fall to \<^verbatim>\<open>default\<close>. The panic of \<^verbatim>\<open>default\<close> is raised with the tag and the
  buffer as it stands after the tag and the id have been popped (\<open>uid\<close> stands for the local \<^verbatim>\<open>id\<close>).
\<close>

definition Pop_switch ::
  "json_lib \<Rightarrow> byte \<Rightarrow> bytes \<Rightarrow> DecodeEncoder list \<Rightarrow> bytes
     \<Rightarrow> error + DecodeEncoder \<times> bytes" where
  "Pop_switch J descriptorType uid codecs bts =
     (if descriptorType = 0 then popSetCodec bts uid codecs
      else if descriptorType = 1 then popObjectCodec bts uid codecs
      else if descriptorType = 2 then
        (case getBaseScalarCodec J uid of Inl e \<Rightarrow> Inl e | Inr c \<Rightarrow> Inr (c, bts))
      else if descriptorType = 4 then popTupleCodec bts uid codecs
      else if descriptorType = 5 then popNamedTupleCodec bts uid codecs
      else if descriptorType = 6 then popArrayCodec bts uid codecs
      else Inl (UnknownDescriptorType descriptorType bts))"

lemma PopUint8_length:
  "PopUint8 bts = Inr (v, rest) \<Longrightarrow> length rest < length bts"
  by (cases bts) (auto simp: PopUint8_def)

lemma PopUint16_length:
  "PopUint16 bts = Inr (v, rest) \<Longrightarrow> length rest \<le> length bts"
  by (auto simp: PopUint16_def split: if_splits)

lemma PopUint32_length:
  "PopUint32 bts = Inr (v, rest) \<Longrightarrow> length rest \<le> length bts"
  by (auto simp: PopUint32_def split: if_splits)

lemma PopUUID_length:
  "PopUUID bts = Inr (v, rest) \<Longrightarrow> length rest \<le> length bts"
  by (auto simp: PopUUID_def split: if_splits)

lemma PopBytes_length:
  "PopBytes bts = Inr (v, rest) \<Longrightarrow> length rest \<le> length bts"
  by (auto simp: PopBytes_def PopUint32_def split: if_splits)

lemma popObjectCodec_loop_length:
  "popObjectCodec_loop codecs i elmCount bts flds = Inr (r, rest) \<Longrightarrow> length rest \<le> length bts"
proof (induction codecs i elmCount bts flds rule: popObjectCodec_loop.induct)
  case (1 codecs i elmCount bts flds)
  show ?case
  proof (cases "i < elmCount")
    case False
    with "1.prems" show ?thesis by (simp add: popObjectCodec_loop.simps [of codecs i])
  next
    case True
    note u = "1.prems" [unfolded popObjectCodec_loop.simps [of codecs i elmCount bts flds]]
    from u True obtain flags b1 nm b2 index b3 where
      s: "PopUint8 bts = Inr (flags, b1)" "PopString b1 = Inr (nm, b2)"
         "PopUint16 b2 = Inr (index, b3)" "\<not> length codecs \<le> unat index"
      by (auto split: sum.splits if_splits)
    with u True have
      "popObjectCodec_loop codecs (Suc i) elmCount b3
         (flds @ [\<lparr>isImplicit = (flags AND 1 \<noteq> 0), isLinkProperty = (flags AND 2 \<noteq> 0),
                    isLink = (flags AND 4 \<noteq> 0), name = nm, codec = codecs ! unat index\<rparr>])
       = Inr (r, rest)"
      by simp
    with "1.IH" True s have "length rest \<le> length b3" by blast
    also have "\<dots> \<le> length b2" using s(3) by (rule PopUint16_length)
    also have "\<dots> \<le> length b1" using s(2) unfolding PopString_def by (rule PopBytes_length)
    also have "\<dots> \<le> length bts" using PopUint8_length [OF s(1)] by simp
    finally show ?thesis .
  qed
qed

lemma popTupleCodec_loop_length:
  "popTupleCodec_loop codecs i elmCount bts flds = Inr (r, rest) \<Longrightarrow> length rest \<le> length bts"
proof (induction codecs i elmCount bts flds rule: popTupleCodec_loop.induct)
  case (1 codecs i elmCount bts flds)
  show ?case
  proof (cases "i < elmCount")
    case False
    with "1.prems" show ?thesis by (simp add: popTupleCodec_loop.simps [of codecs i])
  next
    case True
    note u = "1.prems" [unfolded popTupleCodec_loop.simps [of codecs i elmCount bts flds]]
    from u True obtain index b1 where
      s: "PopUint16 bts = Inr (index, b1)" "\<not> length codecs \<le> unat index"
      by (auto split: sum.splits if_splits)
    with u True have
      "popTupleCodec_loop codecs (Suc i) elmCount b1 (flds @ [codecs ! unat index]) = Inr (r, rest)"
      by simp
    with "1.IH" True s have "length rest \<le> length b1" by blast
    also have "\<dots> \<le> length bts" using s(1) by (rule PopUint16_length)
    finally show ?thesis .
  qed
qed

lemma popNamedTupleCodec_loop_length:
  "popNamedTupleCodec_loop codecs i elmCount bts flds = Inr (r, rest)
     \<Longrightarrow> length rest \<le> length bts"
proof (induction codecs i elmCount bts flds rule: popNamedTupleCodec_loop.induct)
  case (1 codecs i elmCount bts flds)
  show ?case
  proof (cases "i < elmCount")
    case False
    with "1.prems" show ?thesis by (simp add: popNamedTupleCodec_loop.simps [of codecs i])
  next
    case True
    note u = "1.prems" [unfolded popNamedTupleCodec_loop.simps [of codecs i elmCount bts flds]]
    from u True obtain nm b1 index b2 where
      s: "PopString bts = Inr (nm, b1)" "PopUint16 b1 = Inr (index, b2)"
         "\<not> length codecs \<le> unat index"
      by (auto split: sum.splits if_splits)
    with u True have
      "popNamedTupleCodec_loop codecs (Suc i) elmCount b2
         (flds @ [\<lparr>name = nm, codec = codecs ! unat index\<rparr>]) = Inr (r, rest)"
      by simp
    with "1.IH" True s have "length rest \<le> length b2" by blast
    also have "\<dots> \<le> length b1" using s(2) by (rule PopUint16_length)
    also have "\<dots> \<le> length bts" using s(1) unfolding PopString_def by (rule PopBytes_length)
    finally show ?thesis .
  qed
qed

lemma popArrayCodec_loop_length:
  "popArrayCodec_loop i n bts = Inr rest \<Longrightarrow> length rest \<le> length bts"
proof (induction i n bts rule: popArrayCodec_loop.induct)
  case (1 i n bts)
  show ?case
  proof (cases "i < n")
    case False
    with "1.prems" show ?thesis by (simp add: popArrayCodec_loop.simps [of i])
  next
    case True
    note u = "1.prems" [unfolded popArrayCodec_loop.simps [of i n bts]]
    from u True obtain w b1 where s: "PopUint32 bts = Inr (w, b1)"
      by (auto split: sum.splits)
    with u True have "popArrayCodec_loop (Suc i) n b1 = Inr rest" by simp
    with "1.IH" True s have "length rest \<le> length b1" by blast
    also have "\<dots> \<le> length bts" using s by (rule PopUint32_length)
    finally show ?thesis .
  qed
qed

lemma Pop_switch_length:
  assumes "Pop_switch J descriptorType uid codecs bts = Inr (c, rest)"
  shows "length rest \<le> length bts"
proof -
  consider "descriptorType = 0" | "descriptorType = 1" | "descriptorType = 2"
    | "descriptorType = 4" | "descriptorType = 5" | "descriptorType = 6"
    | "descriptorType \<notin> {0, 1, 2, 4, 5, 6}"
    by auto
  then show ?thesis
  proof cases
    case 1
    with assms show ?thesis
      by (auto simp: Pop_switch_def popSetCodec_def split: sum.splits if_splits
               dest: PopUint16_length)
  next
    case 2
    with assms obtain n b1 flds where
      s: "PopUint16 bts = Inr (n, b1)" "popObjectCodec_loop codecs 0 (unat n) b1 [] = Inr (flds, rest)"
      by (auto simp: Pop_switch_def popObjectCodec_def split: sum.splits)
    then show ?thesis
      using PopUint16_length [OF s(1)] popObjectCodec_loop_length [OF s(2)] by simp
  next
    case 3
    with assms show ?thesis by (auto simp: Pop_switch_def split: sum.splits)
  next
    case 4
    with assms obtain n b1 flds where
      s: "PopUint16 bts = Inr (n, b1)" "popTupleCodec_loop codecs 0 (unat n) b1 [] = Inr (flds, rest)"
      by (auto simp: Pop_switch_def popTupleCodec_def split: sum.splits)
    then show ?thesis
      using PopUint16_length [OF s(1)] popTupleCodec_loop_length [OF s(2)] by simp
  next
    case 5
    with assms obtain n b1 flds where
      s: "PopUint16 bts = Inr (n, b1)"
         "popNamedTupleCodec_loop codecs 0 (unat n) b1 [] = Inr (flds, rest)"
      by (auto simp: Pop_switch_def popNamedTupleCodec_def split: sum.splits)
    then show ?thesis
      using PopUint16_length [OF s(1)] popNamedTupleCodec_loop_length [OF s(2)] by simp
  next
    case 6
    with assms obtain index b1 n b2 where
      s: "PopUint16 bts = Inr (index, b1)" "PopUint16 b1 = Inr (n, b2)"
         "popArrayCodec_loop 0 (unat n) b2 = Inr rest"
      by (auto simp: Pop_switch_def popArrayCodec_def split: sum.splits if_splits)
    then show ?thesis
      using PopUint16_length [OF s(1)] PopUint16_length [OF s(2)]
        popArrayCodec_loop_length [OF s(3)] by simp
  next
    case 7
    with assms show ?thesis by (auto simp: Pop_switch_def)
  qed
qed

text \<open>
  \<^verbatim>\<open>Pop\<close>: the loop \<^verbatim>\<open>for len(*bts) > 0\<close> with its two locals, the registry \<open>lookup\<close> and the
  list \<open>codecs\<close>. Every round pops at least the tag byte, so the loop ends. A panic
  unwinds \<^verbatim>\<open>Pop\<close>: the caller receives the panic and no registry.
\<close>

function Pop_loop ::
  "json_lib \<Rightarrow> (bytes \<Rightarrow> DecodeEncoder option) \<Rightarrow> DecodeEncoder list \<Rightarrow> bytes
     \<Rightarrow> error + (bytes \<Rightarrow> DecodeEncoder option)" where
  "Pop_loop J lookup codecs bts =
     (if length bts > 0 then
        (case PopUint8 bts of
           Inl e \<Rightarrow> Inl e
         | Inr (descriptorType, b1) \<Rightarrow>
        (case PopUUID b1 of
           Inl e \<Rightarrow> Inl e
         | Inr (uid, b2) \<Rightarrow>
        (case Pop_switch J descriptorType uid codecs b2 of
           Inl e \<Rightarrow> Inl e
         | Inr (c, b3) \<Rightarrow> Pop_loop J (lookup(uid \<mapsto> c)) (codecs @ [c]) b3)))
      else Inr lookup)"
  by pat_completeness auto
termination
proof (relation "measure (\<lambda>(J, lookup, codecs, bts). length bts)")
  show "wf (measure (\<lambda>(J, lookup, codecs, bts). length bts))" by simp
next
  fix J :: json_lib and lookup :: "bytes \<Rightarrow> DecodeEncoder option"
    and codecs :: "DecodeEncoder list" and bts x2 x y x2a xa ya x2b xb yb
  assume "PopUint8 bts = Inr x2" "(x, y) = x2" "PopUUID y = Inr x2a" "(xa, ya) = x2a"
    "Pop_switch J x xa codecs ya = Inr x2b" "(xb, yb) = x2b"
  then have "length y < length bts" "length ya \<le> length y" "length yb \<le> length ya"
    using PopUint8_length [of bts x y] PopUUID_length [of y xa ya]
      Pop_switch_length [of J x xa codecs ya xb yb] by auto
  then show "((J, lookup(xa \<mapsto> xb), codecs @ [xb], yb), J, lookup, codecs, bts)
      \<in> measure (\<lambda>(J, lookup, codecs, bts). length bts)"
    by simp
qed

declare Pop_loop.simps [simp del]

definition Pop :: "json_lib \<Rightarrow> bytes \<Rightarrow> error + (bytes \<Rightarrow> DecodeEncoder option)" where
  "Pop J bts = Pop_loop J Map.empty [] bts"

section \<open>Notions used to state the properties\<close>

text \<open>
  The relabelling of a decoded \<^verbatim>\<open>types.Set\<close> as a \<^verbatim>\<open>types.Array\<close> (a notion of the
  comparison, not a function of the program).
\<close>

definition as_Array :: "val \<Rightarrow> val" where
  "as_Array v = (case v of VSet xs \<Rightarrow> VArray xs | _ \<Rightarrow> v)"

text \<open>
  The wire layouts of the element lists of composite descriptors, used to state which
  indexes a descriptor references (they are not functions of the program):
  a Tuple lists 16-bit codec indexes; a NamedTuple lists length-prefixed names, each with
  its index; an Object lists a flag byte, a length-prefixed name and an index per field;
  an Array carries 32-bit dimension words. \<open>descriptor_layouts_accepted\<close> below shows that
  the parser reads exactly these layouts when every index is in range.
\<close>

definition tuple_elements :: "16 word list \<Rightarrow> bytes" where
  "tuple_elements idxs = concat (map BigEndian_PutUint16 idxs)"

definition namedtuple_elements :: "(bytes \<times> 16 word) list \<Rightarrow> bytes" where
  "namedtuple_elements es =
     concat (map (\<lambda>(nm, idx).
       BigEndian_PutUint32 (of_nat (length nm)) @ nm @ BigEndian_PutUint16 idx) es)"

definition object_elements :: "(byte \<times> bytes \<times> 16 word) list \<Rightarrow> bytes" where
  "object_elements es =
     concat (map (\<lambda>(flags, nm, idx).
       flags # BigEndian_PutUint32 (of_nat (length nm)) @ nm @ BigEndian_PutUint16 idx) es)"

definition array_dimensions :: "32 word list \<Rightarrow> bytes" where
  "array_dimensions dims = concat (map BigEndian_PutUint32 dims)"

text \<open>
  Decoding \<open>n\<close> elements one after the other with the child codec, each from the buffer
  the previous one left (the reading of ``that many child-decoded elements follow
  contiguously''; a notion of the specification, compared with the loops of the program
  below).
\<close>

primrec decode_elements :: "DecodeEncoder \<Rightarrow> nat \<Rightarrow> bytes \<Rightarrow> error + val list \<times> bytes" where
  "decode_elements child 0 buf = Inr ([], buf)"
| "decode_elements child (Suc n) buf =
     (case Decode child buf of
        Inl e \<Rightarrow> Inl e
      | Inr (v, buf') \<Rightarrow>
          (case decode_elements child n buf' of
             Inl e \<Rightarrow> Inl e
           | Inr (vs, buf'') \<Rightarrow> Inr (v # vs, buf'')))"


text \<open>
  \<open>round_trips c v\<close>: encoding \<open>v\<close> with \<open>c\<close> onto any buffer appends some bytes \<open>enc\<close>, and
  decoding \<open>enc\<close>, followed by anything, with \<open>c\<close> yields \<open>v\<close> again and leaves what followed
  (the property \<^verbatim>\<open>Decode(Encode(v)) == v\<close>; not a function of the program).
\<close>

definition round_trips :: "DecodeEncoder \<Rightarrow> val \<Rightarrow> bool" where
  "round_trips c v =
     (\<forall>bts rest. \<exists>enc. Encode c bts v = Inr (bts @ enc) \<and> Decode c (enc @ rest) = Inr (v, rest))"

text \<open>
  \<open>comes_back c v v'\<close>: encoding \<open>v\<close> with \<open>c\<close> onto any buffer appends some bytes \<open>enc\<close>, and
  decoding \<open>enc\<close>, followed by anything, with \<open>c\<close> yields \<open>v'\<close> and leaves what followed
  (\<open>round_trips c v\<close> is the case \<open>v' = v\<close>; not a function of the program).
\<close>

definition comes_back :: "DecodeEncoder \<Rightarrow> val \<Rightarrow> val \<Rightarrow> bool" where
  "comes_back c v v' =
     (\<forall>bts rest. \<exists>enc. Encode c bts v = Inr (bts @ enc) \<and> Decode c (enc @ rest) = Inr (v', rest))"


section \<open>Facts shared by the properties\<close>

lemma byte_of_word:
  "k + 8 \<le> LENGTH('a) \<Longrightarrow>
   bit (push_bit k (ucast (ucast (drop_bit k (v :: 'a::len word)) :: byte)) :: 'a word) n
     \<longleftrightarrow> (k \<le> n \<and> n < k + 8 \<and> bit v n)"
  by (auto simp: bit_simps)

lemma byte_of_word0:
  "8 \<le> LENGTH('a) \<Longrightarrow>
   bit (ucast (ucast (v :: 'a::len word) :: byte) :: 'a word) n \<longleftrightarrow> (n < 8 \<and> bit v n)"
  by (auto simp: bit_simps)

lemma BigEndian_Uint16_PutUint16: "BigEndian_Uint16 (BigEndian_PutUint16 v @ rest) = v"
proof (rule bit_word_eqI)
  fix n assume "n < LENGTH(16)"
  then have n: "n < 16" by simp
  show "bit (BigEndian_Uint16 (BigEndian_PutUint16 v @ rest)) n = bit v n"
    unfolding BigEndian_Uint16_def BigEndian_PutUint16_def
    using n by (simp add: bit_or_iff byte_of_word byte_of_word0) arith
qed

lemma BigEndian_Uint32_PutUint32: "BigEndian_Uint32 (BigEndian_PutUint32 v @ rest) = v"
proof (rule bit_word_eqI)
  fix n assume "n < LENGTH(32)"
  then have n: "n < 32" by simp
  show "bit (BigEndian_Uint32 (BigEndian_PutUint32 v @ rest)) n = bit v n"
    unfolding BigEndian_Uint32_def BigEndian_PutUint32_def
    using n by (simp add: bit_or_iff byte_of_word byte_of_word0) arith
qed

lemma BigEndian_Uint64_PutUint64: "BigEndian_Uint64 (BigEndian_PutUint64 v @ rest) = v"
proof (rule bit_word_eqI)
  fix n assume "n < LENGTH(64)"
  then have n: "n < 64" by simp
  show "bit (BigEndian_Uint64 (BigEndian_PutUint64 v @ rest)) n = bit v n"
    unfolding BigEndian_Uint64_def BigEndian_PutUint64_def
    using n by (simp add: bit_or_iff byte_of_word byte_of_word0) arith
qed

lemma length_PutUint16 [simp]: "length (BigEndian_PutUint16 v) = 2"
  by (simp add: BigEndian_PutUint16_def)

lemma length_PutUint32 [simp]: "length (BigEndian_PutUint32 v) = 4"
  by (simp add: BigEndian_PutUint32_def)

lemma length_PutUint64 [simp]: "length (BigEndian_PutUint64 v) = 8"
  by (simp add: BigEndian_PutUint64_def)

lemma PopUint16_PutUint16: "PopUint16 (BigEndian_PutUint16 v @ rest) = Inr (v, rest)"
  by (simp add: PopUint16_def BigEndian_Uint16_PutUint16)

lemma PopUint32_PutUint32: "PopUint32 (BigEndian_PutUint32 v @ rest) = Inr (v, rest)"
  by (simp add: PopUint32_def BigEndian_Uint32_PutUint32)


lemma PopUint64_PutUint64: "PopUint64 (BigEndian_PutUint64 v @ rest) = Inr (v, rest)"
  by (simp add: PopUint64_def BigEndian_Uint64_PutUint64)

lemma PopUint8_Cons: "PopUint8 (b # rest) = Inr (b, rest)"
  by (simp add: PopUint8_def)

lemma PopBytes_PutUint32:
  "length s < 2 ^ 32 \<Longrightarrow>
   PopBytes (BigEndian_PutUint32 (of_nat (length s)) @ s @ rest) = Inr (s, rest)"
  by (simp add: PopBytes_def PopUint32_PutUint32 unat_of_nat take_bit_nat_eq_self
        flip: take_bit_eq_mod)

lemma byte_gt_1: "(1 < (b :: byte)) \<longleftrightarrow> (b \<noteq> 0 \<and> b \<noteq> 1)"
proof -
  have "1 < b \<longleftrightarrow> 1 < unat b" by (simp add: word_less_nat_alt)
  also have "\<dots> \<longleftrightarrow> unat b \<noteq> 0 \<and> unat b \<noteq> 1" by arith
  also have "\<dots> \<longleftrightarrow> b \<noteq> 0 \<and> b \<noteq> 1"
    by (metis unat_eq_0 unat_1 word_unat_eq_iff)
  finally show ?thesis .
qed

lemma PopUUID_append:
  "length uid = 16 \<Longrightarrow> PopUUID (uid @ rest) = Inr (uid, rest)"
  by (simp add: PopUUID_def)

lemma PutUint16_numerals:
  "BigEndian_PutUint16 0 = [0, 0]" "BigEndian_PutUint16 1 = [0, 1]"
  "BigEndian_PutUint16 2 = [0, 2]" "BigEndian_PutUint16 5 = [0, 5]"
  by (simp_all add: BigEndian_PutUint16_def)

lemma PutUint32_numerals:
  "BigEndian_PutUint32 0 = [0, 0, 0, 0]" "BigEndian_PutUint32 1 = [0, 0, 0, 1]"
  "BigEndian_PutUint32 2 = [0, 0, 0, 2]" "BigEndian_PutUint32 3 = [0, 0, 0, 3]"
  "BigEndian_PutUint32 4 = [0, 0, 0, 4]"
  by (simp_all add: BigEndian_PutUint32_def)

lemma replicate_2: "replicate 2 x = [x, x]"
  by (simp add: numeral_2_eq_2)

text \<open>The loops of \<^verbatim>\<open>Set.Decode\<close> and \<^verbatim>\<open>Array.Decode\<close> compute the same.\<close>

lemma Array_Decode_loop_eq_Set:
  "Array_Decode_loop child i elmCount buf out = Set_Decode_loop child i elmCount buf out"
proof (induction child i elmCount buf out rule: Set_Decode_loop.induct)
  case (1 child i elmCount buf out)
  show ?case
  proof (cases "i < elmCount")
    case False
    then show ?thesis
      by (simp add: Array_Decode_loop.simps [of child i] Set_Decode_loop.simps [of child i])
  next
    case True
    show ?thesis
    proof (cases "Decode child buf")
      case (Inl e)
      with True show ?thesis
        by (simp add: Array_Decode_loop.simps [of child i] Set_Decode_loop.simps [of child i])
    next
      case (Inr p)
      obtain v buf' where p: "p = (v, buf')" by (cases p)
      from "1.IH" [OF True Inr p [symmetric]] True Inr p show ?thesis
        by (simp add: Array_Decode_loop.simps [of child i elmCount buf]
              Set_Decode_loop.simps [of child i elmCount buf])
    qed
  qed
qed

section \<open>Bool decode is strict\<close>

text \<open>
  Claim C4. \<^verbatim>\<open>Bool.Decode\<close> pops the 32-bit data length (whose value it does not look at)
  and then exactly one payload byte \<open>b\<close>, leaving the rest of the buffer untouched. Byte 0
  decodes to \<open>false\<close>, byte 1 to \<open>true\<close>, and every other byte (2, for example) makes the
  decode panic with the offending byte; no such byte is coerced to \<open>true\<close>.
\<close>

theorem Bool_Decode_strict:
  "Bool_Decode (BigEndian_PutUint32 n @ b # rest) =
     (if b = 0 then Inr (VBool False, rest)
      else if b = 1 then Inr (VBool True, rest)
      else Inl (InvalidBoolByte b))"
  by (simp add: Bool_Decode_def PopUint32_PutUint32 PopUint8_Cons byte_gt_1)

theorem Bool_Decode_strict_witness:
  "Bool_Decode [0, 0, 0, 1, 2] = Inl (InvalidBoolByte 2)
   \<and> Bool_Decode [0, 0, 0, 1, 0] = Inr (VBool False, [])
   \<and> Bool_Decode [0, 0, 0, 1, 1] = Inr (VBool True, [])"
  using Bool_Decode_strict [of 1 2 "[]"] Bool_Decode_strict [of 1 0 "[]"]
    Bool_Decode_strict [of 1 1 "[]"]
  by (simp add: BigEndian_PutUint32_def)

section \<open>The zero-arity tuple\<close>

text \<open>
  Claim C5. Encoding with a \<^verbatim>\<open>Tuple\<close> codec that has no declared fields appends exactly
  eight bytes to the output buffer, whatever the argument value is: the 32-bit length 4
  followed by the 32-bit element count 0. No reserved word and no element payload is
  written.
\<close>

theorem Tuple_Encode_empty:
  "Tuple_Encode [] bts v = Inr (bts @ BigEndian_PutUint32 4 @ BigEndian_PutUint32 0)
   \<and> BigEndian_PutUint32 4 @ BigEndian_PutUint32 0 = [0, 0, 0, 4, 0, 0, 0, 0]
   \<and> (\<exists>out. Tuple_Encode [] bts v = Inr out \<and> length out = length bts + 8)"
  by (simp add: Tuple_Encode_def PushUint32_def BigEndian_PutUint32_def)

section \<open>Set and Array decode agree\<close>

text \<open>
  Claim C10. \<^verbatim>\<open>Set.Decode\<close> and \<^verbatim>\<open>Array.Decode\<close> agree up to the wrapper of the result: on
  every buffer and with every child codec, one panics exactly when the other does, with
  the same panic, and when they return they leave the same remaining buffer and hold the
  same sequence of child-decoded elements, as a \<^verbatim>\<open>types.Set\<close> and as a \<^verbatim>\<open>types.Array\<close>.
\<close>

theorem Set_Array_Decode_same:
  "Array_Decode child bts =
     (case Set_Decode child bts of
        Inl e \<Rightarrow> Inl e
      | Inr (v, rest) \<Rightarrow> Inr (as_Array v, rest))
   \<and> (Set_Decode child bts = Inr (VSet xs, rest)
        \<longleftrightarrow> Array_Decode child bts = Inr (VArray xs, rest))
   \<and> (Set_Decode child bts = Inl e \<longleftrightarrow> Array_Decode child bts = Inl e)"
  unfolding Set_Decode_def Array_Decode_def Array_Decode_loop_eq_Set as_Array_def
  by (simp add: Let_def split: sum.splits prod.splits)

theorem Set_Array_Decode_same_witness:
  "Array_Decode Int32_codec
     [0,0,0,36, 0,0,0,1, 0,0,0,0, 0,0,0,0, 0,0,0,2, 0,0,0,1,
      0,0,0,4, 0,0,0,7, 0,0,0,4, 0,0,0,9, 255]
   = Inr (VArray [VInt32 7, VInt32 9], [255])"
proof -
  have "Set_Decode Int32_codec
     [0,0,0,36, 0,0,0,1, 0,0,0,0, 0,0,0,0, 0,0,0,2, 0,0,0,1,
      0,0,0,4, 0,0,0,7, 0,0,0,4, 0,0,0,9, 255]
   = Inr (VSet [VInt32 7, VInt32 9], [255])"
    by (simp add: Set_Decode_def PopBytes_def PopUint32_def BigEndian_Uint32_def
          Set_Decode_loop.simps Int32_codec_def Int32_Decode_def Let_def
          replicate_2)
  then show ?thesis
    using Set_Array_Decode_same [of Int32_codec _ "[VInt32 7, VInt32 9]" "[255]"]
    by simp
qed

section \<open>Array encode\<close>

lemma Array_Encode_loop_appends:
  assumes "\<And>tmp x. x \<in> set xs \<Longrightarrow> Encode child tmp x = Inr (tmp @ enc x)"
  shows "i \<le> length xs \<Longrightarrow>
    Array_Encode_loop child xs i (length xs) tmp = Inr (tmp @ concat (map enc (drop i xs)))"
proof (induction "length xs - i" arbitrary: i tmp)
  case 0
  then show ?case by (simp add: Array_Encode_loop.simps [of child xs i])
next
  case (Suc k)
  then have lt: "i < length xs" by simp
  then have e: "Encode child tmp (xs ! i) = Inr (tmp @ enc (xs ! i))"
    using assms by simp
  have d: "drop i xs = xs ! i # drop (Suc i) xs"
    using lt by (simp add: Cons_nth_drop_Suc)
  have "Array_Encode_loop child xs (Suc i) (length xs) (tmp @ enc (xs ! i))
      = Inr ((tmp @ enc (xs ! i)) @ concat (map enc (drop (Suc i) xs)))"
    using Suc.hyps(1) [of "Suc i"] Suc.hyps(2) lt by simp
  then show ?case
    using lt e d by (simp add: Array_Encode_loop.simps [of child xs i])
qed

text \<open>
  Claim C6. \<^verbatim>\<open>Array.Encode\<close> writes, after the 32-bit length of what follows, the dimension
  count 1, two reserved words 0 and the bound pair upper = 3, lower = 1, whatever the
  length of the input sequence is; after the bounds come the encodings of the elements
  of the input, one per element and in order, so their number is the length of the
  input. The child codec is any encoder that appends \<open>enc x\<close> for the elements \<open>x\<close> of the
  input, as every scalar codec does on a value of its type.
\<close>

theorem Array_Encode_fixed_bounds:
  assumes "\<And>tmp x. x \<in> set xs \<Longrightarrow> Encode child tmp x = Inr (tmp @ enc x)"
  shows "Array_Encode child bts (VSlice xs) =
     Inr (bts @ BigEndian_PutUint32 (of_nat (20 + length (concat (map enc xs))))
            @ BigEndian_PutUint32 1 @ BigEndian_PutUint32 0 @ BigEndian_PutUint32 0
            @ BigEndian_PutUint32 3 @ BigEndian_PutUint32 1
            @ concat (map enc xs))
     \<and> length (map enc xs) = length xs"
  using Array_Encode_loop_appends [of xs child enc 0, OF assms]
  by (simp add: Array_Encode_def PushUint32_def)

theorem Array_Encode_fixed_bounds_witness:
  "Array_Encode Int32_codec [] (VSlice [VInt32 5]) =
     Inr [0,0,0,28, 0,0,0,1, 0,0,0,0, 0,0,0,0, 0,0,0,3, 0,0,0,1, 0,0,0,4, 0,0,0,5]"
proof -
  have "Encode Int32_codec tmp x =
      Inr (tmp @ (case x of VInt32 y \<Rightarrow> BigEndian_PutUint32 4 @ BigEndian_PutUint32 y | _ \<Rightarrow> []))"
    if "x \<in> set [VInt32 5]" for tmp x
    using that by (simp add: Int32_codec_def Int32_Encode_def PushUint32_def)
  from Array_Encode_fixed_bounds [of "[VInt32 5]" Int32_codec _ "[]", OF this]
  show ?thesis by (simp add: BigEndian_PutUint32_def)
qed

section \<open>NamedTuple encode and missing keys\<close>











section \<open>Unknown descriptor tags\<close>

text \<open>
  Claim C7. Whenever the loop of \<^verbatim>\<open>Pop\<close> stands at a descriptor whose tag byte is none of
  0, 1, 2, 4, 5, 6 (0x7F, for example, or the reserved tags 3 and 7) and whose 16-byte id
  is complete, registry construction panics with the offending tag and the bytes that
  remain after the tag and the id. This holds for every registry and codec list built
  from the descriptors before it; the caller receives the panic and no registry, neither
  the partial one nor any other.
\<close>

theorem Pop_unknown_tag:
  assumes "descriptorType \<notin> {0, 1, 2, 4, 5, 6}" "length uid = 16"
  shows "Pop_loop J lookup codecs (descriptorType # uid @ rest)
           = Inl (UnknownDescriptorType descriptorType rest)
    \<and> Pop J (descriptorType # uid @ rest) = Inl (UnknownDescriptorType descriptorType rest)"
  using assms
  by (simp add: Pop_def Pop_loop.simps [of _ _ _ "descriptorType # uid @ rest"]
        PopUint8_Cons PopUUID_append Pop_switch_def)

theorem Pop_unknown_tag_witness:
  "\<forall>J. Pop J ([2, 0,0,0,0,0,0,0,0,0,0,0,0,0,0,1,1,
           0x7F, 1,2,3,4,5,6,7,8,9,10,11,12,13,14,15,16, 0xAA, 0xBB])
     = Inl (UnknownDescriptorType 0x7F [0xAA, 0xBB])"
proof
  fix J
  have first: "Pop J ([2, 0,0,0,0,0,0,0,0,0,0,0,0,0,0,1,1,
           0x7F, 1,2,3,4,5,6,7,8,9,10,11,12,13,14,15,16, 0xAA, 0xBB])
      = Pop_loop J [base_scalar_id 1 \<mapsto> String_codec] [String_codec]
          (0x7F # [1,2,3,4,5,6,7,8,9,10,11,12,13,14,15,16] @ [0xAA, 0xBB])"
    by (simp add: Pop_def Pop_loop.simps [of _ Map.empty] PopUint8_Cons PopUUID_def
          Pop_switch_def getBaseScalarCodec_def base_scalar_id_def)
  show "Pop J ([2, 0,0,0,0,0,0,0,0,0,0,0,0,0,0,1,1,
           0x7F, 1,2,3,4,5,6,7,8,9,10,11,12,13,14,15,16, 0xAA, 0xBB])
     = Inl (UnknownDescriptorType 0x7F [0xAA, 0xBB])"
    unfolding first
    using Pop_unknown_tag [of "0x7F" "[1,2,3,4,5,6,7,8,9,10,11,12,13,14,15,16]" J
        "[base_scalar_id 1 \<mapsto> String_codec]" "[String_codec]" "[0xAA, 0xBB]"]
    by simp
qed

section \<open>Forward references\<close>

lemma popSetCodec_forward:
  "length codecs \<le> unat n \<Longrightarrow>
   popSetCodec (BigEndian_PutUint16 n @ rest) uid codecs
     = Inl (IndexOutOfRange (unat n) (length codecs))"
  by (simp add: popSetCodec_def PopUint16_PutUint16)

lemma popArrayCodec_loop_dims:
  "i + length dims = n \<Longrightarrow>
   popArrayCodec_loop i n (array_dimensions dims @ rest) = Inr rest"
proof (induction dims arbitrary: i)
  case Nil
  then show ?case by (simp add: popArrayCodec_loop.simps [of n] array_dimensions_def)
next
  case (Cons d dims)
  then have "popArrayCodec_loop (Suc i) n (array_dimensions dims @ rest) = Inr rest" by simp
  with Cons.prems show ?case
    using PopUint32_PutUint32 [of d "array_dimensions dims @ rest"]
    by (simp add: popArrayCodec_loop.simps [of i] array_dimensions_def)
qed

lemma popArrayCodec_forward:
  "length dims = unat k \<Longrightarrow> length codecs \<le> unat index \<Longrightarrow>
   popArrayCodec (BigEndian_PutUint16 index @ BigEndian_PutUint16 k @ array_dimensions dims @ rest)
       uid codecs
     = Inl (IndexOutOfRange (unat index) (length codecs))"
  using popArrayCodec_loop_dims [of 0 dims "unat k" rest]
  by (simp add: popArrayCodec_def PopUint16_PutUint16)

lemma popTupleCodec_loop_forward:
  "find (\<lambda>idx. length codecs \<le> unat idx) idxs = Some bad \<Longrightarrow> i + length idxs \<le> elmCount \<Longrightarrow>
     popTupleCodec_loop codecs i elmCount (tuple_elements idxs @ rest) flds
       = Inl (IndexOutOfRange (unat bad) (length codecs))"
proof (induction idxs arbitrary: i flds)
  case Nil
  then show ?case by simp
next
  case (Cons idx idxs)
  have lt: "i < elmCount" using Cons.prems(2) by simp
  have pop: "PopUint16 (tuple_elements (idx # idxs) @ rest) = Inr (idx, tuple_elements idxs @ rest)"
    using PopUint16_PutUint16 [of idx "tuple_elements idxs @ rest"]
    by (simp add: tuple_elements_def)
  show ?case
  proof (cases "length codecs \<le> unat idx")
    case True
    with Cons.prems have "bad = idx" by simp
    with True lt pop show ?thesis
      by (simp add: popTupleCodec_loop.simps [of codecs i])
  next
    case False
    with Cons.prems have "find (\<lambda>idx. length codecs \<le> unat idx) idxs = Some bad"
      "Suc i + length idxs \<le> elmCount"
      by auto
    from Cons.IH [OF this] False lt pop show ?thesis
      by (simp add: popTupleCodec_loop.simps [of codecs i])
  qed
qed

lemma popTupleCodec_forward:
  "length idxs \<le> unat k \<Longrightarrow> find (\<lambda>idx. length codecs \<le> unat idx) idxs = Some bad \<Longrightarrow>
     popTupleCodec (BigEndian_PutUint16 k @ tuple_elements idxs @ rest) uid codecs
       = Inl (IndexOutOfRange (unat bad) (length codecs))"
  using popTupleCodec_loop_forward [of codecs idxs bad 0 "unat k" rest "[]"]
  by (simp add: popTupleCodec_def PopUint16_PutUint16)

lemma popNamedTupleCodec_loop_forward:
  "find (\<lambda>(nm, idx). length codecs \<le> unat idx) es = Some (bnm, bad) \<Longrightarrow>
   \<forall>(nm, idx) \<in> set es. length nm < 2 ^ 32 \<Longrightarrow> i + length es \<le> elmCount \<Longrightarrow>
     popNamedTupleCodec_loop codecs i elmCount (namedtuple_elements es @ rest) flds
       = Inl (IndexOutOfRange (unat bad) (length codecs))"
proof (induction es arbitrary: i flds)
  case Nil
  then show ?case by simp
next
  case (Cons e es)
  obtain nm idx where e: "e = (nm, idx)" by (cases e)
  have lt: "i < elmCount" using Cons.prems(3) by simp
  have nm: "length nm < 2 ^ 32" using Cons.prems(2) e by simp
  have pop1: "PopString (namedtuple_elements (e # es) @ rest)
      = Inr (nm, BigEndian_PutUint16 idx @ namedtuple_elements es @ rest)"
    using PopBytes_PutUint32 [OF nm, of "BigEndian_PutUint16 idx @ namedtuple_elements es @ rest"]
    by (simp add: namedtuple_elements_def e PopString_def)
  have pop2: "PopUint16 (BigEndian_PutUint16 idx @ namedtuple_elements es @ rest)
      = Inr (idx, namedtuple_elements es @ rest)"
    by (rule PopUint16_PutUint16)
  show ?case
  proof (cases "length codecs \<le> unat idx")
    case True
    with Cons.prems e have "bad = idx" by simp
    with True lt pop1 pop2 show ?thesis
      by (simp add: popNamedTupleCodec_loop.simps [of codecs i])
  next
    case False
    with Cons.prems e have
      "find (\<lambda>(nm, idx). length codecs \<le> unat idx) es = Some (bnm, bad)"
      "\<forall>(nm, idx) \<in> set es. length nm < 2 ^ 32" "Suc i + length es \<le> elmCount"
      by auto
    from Cons.IH [OF this] False lt pop1 pop2 show ?thesis
      by (simp add: popNamedTupleCodec_loop.simps [of codecs i])
  qed
qed

lemma popNamedTupleCodec_forward:
  assumes "length es \<le> unat k"
    "find (\<lambda>(nm, idx). length codecs \<le> unat idx) es = Some (bnm, bad)"
    "\<forall>(nm, idx) \<in> set es. length nm < 2 ^ 32"
  shows "popNamedTupleCodec (BigEndian_PutUint16 k @ namedtuple_elements es @ rest) uid codecs
       = Inl (IndexOutOfRange (unat bad) (length codecs))"
  using popNamedTupleCodec_loop_forward [OF assms(2,3), of 0 "unat k" rest "[]"] assms(1)
  by (simp add: popNamedTupleCodec_def PopUint16_PutUint16)

lemma popObjectCodec_loop_forward:
  "find (\<lambda>(flags, nm, idx). length codecs \<le> unat idx) es = Some (bflags, bnm, bad) \<Longrightarrow>
   \<forall>(flags, nm, idx) \<in> set es. length nm < 2 ^ 32 \<Longrightarrow> i + length es \<le> elmCount \<Longrightarrow>
     popObjectCodec_loop codecs i elmCount (object_elements es @ rest) flds
       = Inl (IndexOutOfRange (unat bad) (length codecs))"
proof (induction es arbitrary: i flds)
  case Nil
  then show ?case by simp
next
  case (Cons e es)
  obtain flags nm idx where e: "e = (flags, nm, idx)" by (cases e)
  have lt: "i < elmCount" using Cons.prems(3) by simp
  have nm: "length nm < 2 ^ 32" using Cons.prems(2) e by simp
  have pop0: "PopUint8 (object_elements (e # es) @ rest)
      = Inr (flags, BigEndian_PutUint32 (of_nat (length nm)) @ nm
               @ BigEndian_PutUint16 idx @ object_elements es @ rest)"
    by (simp add: object_elements_def e PopUint8_Cons)
  have pop1: "PopString (BigEndian_PutUint32 (of_nat (length nm)) @ nm
               @ BigEndian_PutUint16 idx @ object_elements es @ rest)
      = Inr (nm, BigEndian_PutUint16 idx @ object_elements es @ rest)"
    using PopBytes_PutUint32 [OF nm] by (simp add: PopString_def)
  have pop2: "PopUint16 (BigEndian_PutUint16 idx @ object_elements es @ rest)
      = Inr (idx, object_elements es @ rest)"
    by (rule PopUint16_PutUint16)
  show ?case
  proof (cases "length codecs \<le> unat idx")
    case True
    with Cons.prems e have "bad = idx" by simp
    with True lt pop0 pop1 pop2 show ?thesis
      by (simp add: popObjectCodec_loop.simps [of codecs i])
  next
    case False
    with Cons.prems e have
      "find (\<lambda>(flags, nm, idx). length codecs \<le> unat idx) es = Some (bflags, bnm, bad)"
      "\<forall>(flags, nm, idx) \<in> set es. length nm < 2 ^ 32" "Suc i + length es \<le> elmCount"
      by auto
    from Cons.IH [OF this] False lt pop0 pop1 pop2 show ?thesis
      by (simp add: popObjectCodec_loop.simps [of codecs i])
  qed
qed

lemma popObjectCodec_forward:
  assumes "length es \<le> unat k"
    "find (\<lambda>(flags, nm, idx). length codecs \<le> unat idx) es = Some (bflags, bnm, bad)"
    "\<forall>(flags, nm, idx) \<in> set es. length nm < 2 ^ 32"
  shows "popObjectCodec (BigEndian_PutUint16 k @ object_elements es @ rest) uid codecs
       = Inl (IndexOutOfRange (unat bad) (length codecs))"
  using popObjectCodec_loop_forward [OF assms(2,3), of 0 "unat k" rest "[]"] assms(1)
  by (simp add: popObjectCodec_def PopUint16_PutUint16)

lemma popTupleCodec_loop_accepts:
  "find (\<lambda>idx. length codecs \<le> unat idx) idxs = None \<Longrightarrow> i + length idxs = elmCount \<Longrightarrow>
     popTupleCodec_loop codecs i elmCount (tuple_elements idxs @ rest) flds
       = Inr (flds @ map (\<lambda>idx. codecs ! unat idx) idxs, rest)"
proof (induction idxs arbitrary: i flds)
  case Nil
  then show ?case by (simp add: popTupleCodec_loop.simps [of codecs elmCount] tuple_elements_def)
next
  case (Cons idx idxs)
  have lt: "i < elmCount" using Cons.prems(2) by simp
  have pop: "PopUint16 (tuple_elements (idx # idxs) @ rest) = Inr (idx, tuple_elements idxs @ rest)"
    using PopUint16_PutUint16 [of idx "tuple_elements idxs @ rest"]
    by (simp add: tuple_elements_def)
  from Cons.prems have ok: "\<not> length codecs \<le> unat idx"
    and "find (\<lambda>idx. length codecs \<le> unat idx) idxs = None" "Suc i + length idxs = elmCount"
    by (auto split: if_splits)
  from Cons.IH [OF this(2,3)] ok lt pop show ?case
    by (simp add: popTupleCodec_loop.simps [of codecs i])
qed

lemma popNamedTupleCodec_loop_accepts:
  "find (\<lambda>(nm, idx). length codecs \<le> unat idx) es = None \<Longrightarrow>
   \<forall>(nm, idx) \<in> set es. length nm < 2 ^ 32 \<Longrightarrow> i + length es = elmCount \<Longrightarrow>
     popNamedTupleCodec_loop codecs i elmCount (namedtuple_elements es @ rest) flds
       = Inr (flds @ map (\<lambda>(nm, idx). \<lparr>name = nm, codec = codecs ! unat idx\<rparr>) es, rest)"
proof (induction es arbitrary: i flds)
  case Nil
  then show ?case
    by (simp add: popNamedTupleCodec_loop.simps [of codecs elmCount] namedtuple_elements_def)
next
  case (Cons e es)
  obtain nm idx where e: "e = (nm, idx)" by (cases e)
  have lt: "i < elmCount" using Cons.prems(3) by simp
  have nm: "length nm < 2 ^ 32" using Cons.prems(2) e by simp
  have pop1: "PopString (namedtuple_elements (e # es) @ rest)
      = Inr (nm, BigEndian_PutUint16 idx @ namedtuple_elements es @ rest)"
    using PopBytes_PutUint32 [OF nm, of "BigEndian_PutUint16 idx @ namedtuple_elements es @ rest"]
    by (simp add: namedtuple_elements_def e PopString_def)
  have pop2: "PopUint16 (BigEndian_PutUint16 idx @ namedtuple_elements es @ rest)
      = Inr (idx, namedtuple_elements es @ rest)"
    by (rule PopUint16_PutUint16)
  from Cons.prems e have ok: "\<not> length codecs \<le> unat idx"
    and "find (\<lambda>(nm, idx). length codecs \<le> unat idx) es = None"
      "\<forall>(nm, idx) \<in> set es. length nm < 2 ^ 32" "Suc i + length es = elmCount"
    by (auto split: if_splits)
  from Cons.IH [OF this(2,3,4)] ok lt pop1 pop2 e show ?case
    by (simp add: popNamedTupleCodec_loop.simps [of codecs i])
qed

lemma popObjectCodec_loop_accepts:
  "find (\<lambda>(flags, nm, idx). length codecs \<le> unat idx) es = None \<Longrightarrow>
   \<forall>(flags, nm, idx) \<in> set es. length nm < 2 ^ 32 \<Longrightarrow> i + length es = elmCount \<Longrightarrow>
     popObjectCodec_loop codecs i elmCount (object_elements es @ rest) flds
       = Inr (flds @ map (\<lambda>(flags, nm, idx).
                \<lparr>isImplicit = (flags AND 1 \<noteq> 0), isLinkProperty = (flags AND 2 \<noteq> 0),
                 isLink = (flags AND 4 \<noteq> 0), name = nm, codec = codecs ! unat idx\<rparr>) es, rest)"
proof (induction es arbitrary: i flds)
  case Nil
  then show ?case
    by (simp add: popObjectCodec_loop.simps [of codecs elmCount] object_elements_def)
next
  case (Cons e es)
  obtain flags nm idx where e: "e = (flags, nm, idx)" by (cases e)
  have lt: "i < elmCount" using Cons.prems(3) by simp
  have nm: "length nm < 2 ^ 32" using Cons.prems(2) e by simp
  have pop0: "PopUint8 (object_elements (e # es) @ rest)
      = Inr (flags, BigEndian_PutUint32 (of_nat (length nm)) @ nm
               @ BigEndian_PutUint16 idx @ object_elements es @ rest)"
    by (simp add: object_elements_def e PopUint8_Cons)
  have pop1: "PopString (BigEndian_PutUint32 (of_nat (length nm)) @ nm
               @ BigEndian_PutUint16 idx @ object_elements es @ rest)
      = Inr (nm, BigEndian_PutUint16 idx @ object_elements es @ rest)"
    using PopBytes_PutUint32 [OF nm] by (simp add: PopString_def)
  have pop2: "PopUint16 (BigEndian_PutUint16 idx @ object_elements es @ rest)
      = Inr (idx, object_elements es @ rest)"
    by (rule PopUint16_PutUint16)
  from Cons.prems e have ok: "\<not> length codecs \<le> unat idx"
    and "find (\<lambda>(flags, nm, idx). length codecs \<le> unat idx) es = None"
      "\<forall>(flags, nm, idx) \<in> set es. length nm < 2 ^ 32" "Suc i + length es = elmCount"
    by (auto split: if_splits)
  from Cons.IH [OF this(2,3,4)] ok lt pop0 pop1 pop2 e show ?case
    by (simp add: popObjectCodec_loop.simps [of codecs i])
qed

lemma descriptor_layouts_accepted:
  "length idxs = unat tk \<Longrightarrow> find (\<lambda>idx. length codecs \<le> unat idx) idxs = None \<Longrightarrow>
     popTupleCodec (BigEndian_PutUint16 tk @ tuple_elements idxs @ rest) uid codecs
       = Inr (Tuple_codec (map (\<lambda>idx. codecs ! unat idx) idxs), rest)"
  "length nes = unat nk \<Longrightarrow> find (\<lambda>(nm, idx). length codecs \<le> unat idx) nes = None \<Longrightarrow>
   \<forall>(nm, idx) \<in> set nes. length nm < 2 ^ 32 \<Longrightarrow>
     popNamedTupleCodec (BigEndian_PutUint16 nk @ namedtuple_elements nes @ rest) uid codecs
       = Inr (NamedTuple_codec
               (map (\<lambda>(nm, idx). \<lparr>name = nm, codec = codecs ! unat idx\<rparr>) nes), rest)"
  "length oes = unat ok \<Longrightarrow> find (\<lambda>(flags, nm, idx). length codecs \<le> unat idx) oes = None \<Longrightarrow>
   \<forall>(flags, nm, idx) \<in> set oes. length nm < 2 ^ 32 \<Longrightarrow>
     popObjectCodec (BigEndian_PutUint16 ok @ object_elements oes @ rest) uid codecs
       = Inr (Object_codec (map (\<lambda>(flags, nm, idx).
                \<lparr>isImplicit = (flags AND 1 \<noteq> 0), isLinkProperty = (flags AND 2 \<noteq> 0),
                 isLink = (flags AND 4 \<noteq> 0), name = nm, codec = codecs ! unat idx\<rparr>) oes), rest)"
  "length dims = unat dk \<Longrightarrow> unat index < length codecs \<Longrightarrow>
     popArrayCodec (BigEndian_PutUint16 index @ BigEndian_PutUint16 dk
                      @ array_dimensions dims @ rest) uid codecs
       = Inr (Array_codec (codecs ! unat index), rest)"
  using popTupleCodec_loop_accepts [of codecs idxs 0 "unat tk" rest "[]"]
    popNamedTupleCodec_loop_accepts [of codecs nes 0 "unat nk" rest "[]"]
    popObjectCodec_loop_accepts [of codecs oes 0 "unat ok" rest "[]"]
    popArrayCodec_loop_dims [of 0 dims "unat dk" rest]
  by (simp_all add: popTupleCodec_def popNamedTupleCodec_def popObjectCodec_def
        popArrayCodec_def PopUint16_PutUint16)

lemma Pop_loop_descriptor_fails:
  assumes "length uid = 16" "Pop_switch J t uid codecs payload = Inl e"
  shows "Pop_loop J lookup codecs (t # uid @ payload) = Inl e"
  using assms
  by (simp add: Pop_loop.simps [of _ _ _ "t # uid @ payload"] PopUint8_Cons PopUUID_append)

text \<open>
  Claim C8. Let \<open>codecs\<close> be the list of codecs built from the descriptors parsed so far, so
  that its length is the position of the next descriptor. If that descriptor is a Set,
  Object, Tuple, NamedTuple or Array descriptor that references an index not below that
  position (a forward reference or a reference to itself), registry construction panics
  on the first such index with the index-out-of-range panic of the Go runtime; it never
  reads past the codec list and never returns a registry.
\<close>

theorem Pop_forward_reference:
  assumes "length uid = 16"
  shows
    "(length codecs \<le> unat n \<longrightarrow>
        Pop_loop J lookup codecs (0 # uid @ BigEndian_PutUint16 n @ rest)
          = Inl (IndexOutOfRange (unat n) (length codecs)))
     \<and> (length oes \<le> unat ok
          \<and> (\<forall>(flags, nm, idx) \<in> set oes. length nm < 2 ^ 32)
          \<and> find (\<lambda>(flags, nm, idx). length codecs \<le> unat idx) oes = Some (bflags, bnm, obad) \<longrightarrow>
        Pop_loop J lookup codecs (1 # uid @ BigEndian_PutUint16 ok @ object_elements oes @ rest)
          = Inl (IndexOutOfRange (unat obad) (length codecs)))
     \<and> (length idxs \<le> unat tk
          \<and> find (\<lambda>idx. length codecs \<le> unat idx) idxs = Some tbad \<longrightarrow>
        Pop_loop J lookup codecs (4 # uid @ BigEndian_PutUint16 tk @ tuple_elements idxs @ rest)
          = Inl (IndexOutOfRange (unat tbad) (length codecs)))
     \<and> (length nes \<le> unat nk
          \<and> (\<forall>(nm, idx) \<in> set nes. length nm < 2 ^ 32)
          \<and> find (\<lambda>(nm, idx). length codecs \<le> unat idx) nes = Some (nnm, nbad) \<longrightarrow>
        Pop_loop J lookup codecs
            (5 # uid @ BigEndian_PutUint16 nk @ namedtuple_elements nes @ rest)
          = Inl (IndexOutOfRange (unat nbad) (length codecs)))
     \<and> (length dims = unat dk \<and> length codecs \<le> unat index \<longrightarrow>
        Pop_loop J lookup codecs
            (6 # uid @ BigEndian_PutUint16 index @ BigEndian_PutUint16 dk
               @ array_dimensions dims @ rest)
          = Inl (IndexOutOfRange (unat index) (length codecs)))"
proof (intro conjI impI)
  assume "length codecs \<le> unat n"
  then show "Pop_loop J lookup codecs (0 # uid @ BigEndian_PutUint16 n @ rest)
          = Inl (IndexOutOfRange (unat n) (length codecs))"
    by (intro Pop_loop_descriptor_fails [OF assms])
       (simp add: Pop_switch_def popSetCodec_forward)
next
  assume "length oes \<le> unat ok
          \<and> (\<forall>(flags, nm, idx) \<in> set oes. length nm < 2 ^ 32)
          \<and> find (\<lambda>(flags, nm, idx). length codecs \<le> unat idx) oes = Some (bflags, bnm, obad)"
  then show "Pop_loop J lookup codecs
       (1 # uid @ BigEndian_PutUint16 ok @ object_elements oes @ rest)
          = Inl (IndexOutOfRange (unat obad) (length codecs))"
    by (intro Pop_loop_descriptor_fails [OF assms])
       (simp add: Pop_switch_def popObjectCodec_forward)
next
  assume "length idxs \<le> unat tk
          \<and> find (\<lambda>idx. length codecs \<le> unat idx) idxs = Some tbad"
  then show "Pop_loop J lookup codecs
       (4 # uid @ BigEndian_PutUint16 tk @ tuple_elements idxs @ rest)
          = Inl (IndexOutOfRange (unat tbad) (length codecs))"
    by (intro Pop_loop_descriptor_fails [OF assms])
       (simp add: Pop_switch_def popTupleCodec_forward)
next
  assume "length nes \<le> unat nk
          \<and> (\<forall>(nm, idx) \<in> set nes. length nm < 2 ^ 32)
          \<and> find (\<lambda>(nm, idx). length codecs \<le> unat idx) nes = Some (nnm, nbad)"
  then show "Pop_loop J lookup codecs
            (5 # uid @ BigEndian_PutUint16 nk @ namedtuple_elements nes @ rest)
          = Inl (IndexOutOfRange (unat nbad) (length codecs))"
    by (intro Pop_loop_descriptor_fails [OF assms])
       (simp add: Pop_switch_def popNamedTupleCodec_forward)
next
  assume "length dims = unat dk \<and> length codecs \<le> unat index"
  then show "Pop_loop J lookup codecs
            (6 # uid @ BigEndian_PutUint16 index @ BigEndian_PutUint16 dk
               @ array_dimensions dims @ rest)
          = Inl (IndexOutOfRange (unat index) (length codecs))"
    by (intro Pop_loop_descriptor_fails [OF assms])
       (simp add: Pop_switch_def popArrayCodec_forward)
qed

theorem Pop_forward_reference_witness:
  "\<forall>J. Pop J ([0, 0,0,0,0,0,0,0,0,0,0,0,0,0,0,0,7] @ [0,0]) = Inl (IndexOutOfRange 0 0)
   \<and> Pop J ([1, 0,0,0,0,0,0,0,0,0,0,0,0,0,0,0,7] @ [0,1] @ [0, 0,0,0,1, 97, 0,0])
       = Inl (IndexOutOfRange 0 0)
   \<and> Pop J ([2, 0,0,0,0,0,0,0,0,0,0,0,0,0,0,1,1] @ [2, 0,0,0,0,0,0,0,0,0,0,0,0,0,0,1,5]
             @ [4, 0,0,0,0,0,0,0,0,0,0,0,0,0,0,0,7] @ [0,1] @ [0,2])
       = Inl (IndexOutOfRange 2 2)
   \<and> Pop J ([5, 0,0,0,0,0,0,0,0,0,0,0,0,0,0,0,7] @ [0,1] @ [0,0,0,1, 97, 0,5])
       = Inl (IndexOutOfRange 5 0)
   \<and> Pop J ([6, 0,0,0,0,0,0,0,0,0,0,0,0,0,0,0,7] @ [0,1] @ [0,1] @ [0,0,0,3])
       = Inl (IndexOutOfRange 1 0)"
proof
  fix J
  let ?uid = "[0,0,0,0,0,0,0,0,0,0,0,0,0,0,0,7] :: bytes"
  have u: "length ?uid = 16" by simp
  note fr = Pop_forward_reference [OF u]
  have s: "Pop J ([0, 0,0,0,0,0,0,0,0,0,0,0,0,0,0,0,7] @ [0,0]) = Inl (IndexOutOfRange 0 0)"
    using fr [where codecs = "[]" and n = 0 and J = J and lookup = Map.empty and rest = "[]",
        THEN conjunct1]
    by (simp add: Pop_def PutUint16_numerals)
  have ob: "Pop J ([1, 0,0,0,0,0,0,0,0,0,0,0,0,0,0,0,7] @ [0,1] @ [0, 0,0,0,1, 97, 0,0])
       = Inl (IndexOutOfRange 0 0)"
    using fr [where codecs = "[]" and oes = "[(0, [97], 0)]" and ok = 1 and bflags = 0
        and bnm = "[97]" and obad = 0 and J = J and lookup = Map.empty and rest = "[]",
        THEN conjunct2, THEN conjunct1]
    by (simp add: Pop_def PutUint16_numerals object_elements_def BigEndian_PutUint32_def)
  have first: "Pop J ([2, 0,0,0,0,0,0,0,0,0,0,0,0,0,0,1,1] @ [2, 0,0,0,0,0,0,0,0,0,0,0,0,0,0,1,5]
             @ [4, 0,0,0,0,0,0,0,0,0,0,0,0,0,0,0,7] @ [0,1] @ [0,2])
      = Pop_loop J [base_scalar_id 1 \<mapsto> String_codec, base_scalar_id 5 \<mapsto> Int64_codec]
          [String_codec, Int64_codec] (4 # ?uid @ [0,1] @ [0,2])"
    by (simp add: Pop_def Pop_loop.simps [of _ Map.empty]
          Pop_loop.simps [of _ _ "[String_codec]"]
          PopUint8_Cons PopUUID_def
          Pop_switch_def getBaseScalarCodec_def base_scalar_id_def)
  have tu: "Pop J ([2, 0,0,0,0,0,0,0,0,0,0,0,0,0,0,1,1] @ [2, 0,0,0,0,0,0,0,0,0,0,0,0,0,0,1,5]
             @ [4, 0,0,0,0,0,0,0,0,0,0,0,0,0,0,0,7] @ [0,1] @ [0,2])
       = Inl (IndexOutOfRange 2 2)"
    unfolding first
    using fr [where codecs = "[String_codec, Int64_codec]" and idxs = "[2]" and tk = 1
        and tbad = 2 and J = J and rest = "[]"
        and lookup = "[base_scalar_id 1 \<mapsto> String_codec, base_scalar_id 5 \<mapsto> Int64_codec]",
        THEN conjunct2, THEN conjunct2, THEN conjunct1]
    by (simp add: PutUint16_numerals tuple_elements_def)
  have nt: "Pop J ([5, 0,0,0,0,0,0,0,0,0,0,0,0,0,0,0,7] @ [0,1] @ [0,0,0,1, 97, 0,5])
       = Inl (IndexOutOfRange 5 0)"
    using fr [where codecs = "[]" and nes = "[([97], 5)]" and nk = 1
        and nnm = "[97]" and nbad = 5 and J = J and lookup = Map.empty and rest = "[]",
        THEN conjunct2, THEN conjunct2, THEN conjunct2, THEN conjunct1]
    by (simp add: Pop_def PutUint16_numerals namedtuple_elements_def BigEndian_PutUint32_def)
  have ar: "Pop J ([6, 0,0,0,0,0,0,0,0,0,0,0,0,0,0,0,7] @ [0,1] @ [0,1] @ [0,0,0,3])
       = Inl (IndexOutOfRange 1 0)"
    using fr [where codecs = "[]" and dims = "[3]" and dk = 1 and index = 1
        and J = J and lookup = Map.empty and rest = "[]",
        THEN conjunct2, THEN conjunct2, THEN conjunct2, THEN conjunct2]
    by (simp add: Pop_def PutUint16_numerals array_dimensions_def BigEndian_PutUint32_def)
  from s ob tu nt ar
  show "Pop J ([0, 0,0,0,0,0,0,0,0,0,0,0,0,0,0,0,7] @ [0,0]) = Inl (IndexOutOfRange 0 0)
   \<and> Pop J ([1, 0,0,0,0,0,0,0,0,0,0,0,0,0,0,0,7] @ [0,1] @ [0, 0,0,0,1, 97, 0,0])
       = Inl (IndexOutOfRange 0 0)
   \<and> Pop J ([2, 0,0,0,0,0,0,0,0,0,0,0,0,0,0,1,1] @ [2, 0,0,0,0,0,0,0,0,0,0,0,0,0,0,1,5]
             @ [4, 0,0,0,0,0,0,0,0,0,0,0,0,0,0,0,7] @ [0,1] @ [0,2])
       = Inl (IndexOutOfRange 2 2)
   \<and> Pop J ([5, 0,0,0,0,0,0,0,0,0,0,0,0,0,0,0,7] @ [0,1] @ [0,0,0,1, 97, 0,5])
       = Inl (IndexOutOfRange 5 0)
   \<and> Pop J ([6, 0,0,0,0,0,0,0,0,0,0,0,0,0,0,0,7] @ [0,1] @ [0,1] @ [0,0,0,3])
       = Inl (IndexOutOfRange 1 0)"
    by blast
qed

section \<open>The envelope of Set and Array values\<close>

lemma decode_elements_length:
  "decode_elements child n buf = Inr (vs, b) \<Longrightarrow> length vs = n"
  by (induction n arbitrary: buf vs b) (auto split: sum.splits prod.splits)

lemma Set_Decode_loop_elements:
  "i \<le> elmCount \<Longrightarrow> length out = elmCount \<Longrightarrow>
   Set_Decode_loop child i elmCount buf out =
     (case decode_elements child (elmCount - i) buf of
        Inl e \<Rightarrow> Inl e
      | Inr (vs, b) \<Rightarrow> Inr (take i out @ vs, b))"
proof (induction "elmCount - i" arbitrary: i buf out)
  case 0
  then show ?case by (simp add: Set_Decode_loop.simps [of child i])
next
  case (Suc k)
  then have lt: "i < elmCount" and k: "k = elmCount - Suc i" and d: "elmCount - i = Suc k"
    by simp_all
  show ?case
  proof (cases "Decode child buf")
    case (Inl e)
    with lt d show ?thesis by (simp add: Set_Decode_loop.simps [of child i])
  next
    case (Inr p)
    obtain v buf' where p: "p = (v, buf')" by (cases p)
    have t: "take (Suc i) (out[i := v]) = take i out @ [v]"
      using lt Suc.prems(2) by (simp add: take_Suc_conv_app_nth)
    have "Set_Decode_loop child (Suc i) elmCount buf' (out[i := v]) =
       (case decode_elements child (elmCount - Suc i) buf' of
          Inl e \<Rightarrow> Inl e
        | Inr (vs, b) \<Rightarrow> Inr (take (Suc i) (out[i := v]) @ vs, b))"
      using Suc.hyps(1) [OF k] lt Suc.prems(2) by simp
    with Inr p lt d k t show ?thesis
      by (simp add: Set_Decode_loop.simps [of child i elmCount buf] split: sum.splits)
  qed
qed

lemma elmCount_exact:
  fixes upper lower :: "32 word"
  assumes "0 \<le> sint upper - sint lower + 1" "sint upper - sint lower + 1 < 2 ^ 31"
  shows "sint (upper - lower + 1) = sint upper - sint lower + 1"
proof -
  have "sint (upper - lower + 1) = signed_take_bit 31 (sint upper - sint lower + 1)"
    using signed_take_bit_add [of 31 "sint upper - sint lower" 1]
    by (simp add: sint_word_ariths)
  also have "\<dots> = sint upper - sint lower + 1"
    using assms by (intro signed_take_bit_int_eq_self) simp_all
  finally show ?thesis .
qed

lemma Set_Decode_header:
  assumes "PopBytes bts = Inr (buf, rest)" "dimCount \<noteq> 0"
    "buf = BigEndian_PutUint32 dimCount @ BigEndian_PutUint32 r1 @ BigEndian_PutUint32 r2
             @ BigEndian_PutUint32 upper @ BigEndian_PutUint32 lower @ payload"
  shows "Set_Decode child bts =
      (if sint (upper - lower + 1) < 0 then Inl MakeSliceLenOutOfRange
       else (case Set_Decode_loop child 0 (nat (sint (upper - lower + 1))) payload
                    (replicate (nat (sint (upper - lower + 1))) Nil) of
               Inl e \<Rightarrow> Inl e
             | Inr (out, _) \<Rightarrow> Inr (VSet out, rest)))"
  using assms by (simp add: Set_Decode_def PopUint32_PutUint32 Let_def)

lemma Array_Decode_header:
  assumes "PopBytes bts = Inr (buf, rest)" "dimCount \<noteq> 0"
    "buf = BigEndian_PutUint32 dimCount @ BigEndian_PutUint32 r1 @ BigEndian_PutUint32 r2
             @ BigEndian_PutUint32 upper @ BigEndian_PutUint32 lower @ payload"
  shows "Array_Decode child bts =
      (if sint (upper - lower + 1) < 0 then Inl MakeSliceLenOutOfRange
       else (case Array_Decode_loop child 0 (nat (sint (upper - lower + 1))) payload
                    (replicate (nat (sint (upper - lower + 1))) Nil) of
               Inl e \<Rightarrow> Inl e
             | Inr (out, _) \<Rightarrow> Inr (VArray out, rest)))"
  using assms by (simp add: Array_Decode_def PopUint32_PutUint32 Let_def)

text \<open>
  Claim C2. \<^verbatim>\<open>Set.Decode\<close> and \<^verbatim>\<open>Array.Decode\<close> pop the length-prefixed envelope \<open>buf\<close> and read
  its 32-bit dimension count. If the count is zero the result is the empty collection and
  nothing more of the envelope is looked at (the child codec is not called). If it is
  nonzero they skip two 32-bit reserved words, read the 32-bit bounds \<open>upper\<close> and \<open>lower\<close>,
  and decode exactly \<open>upper - lower + 1\<close> elements in order from the bytes that follow,
  each by one call of the child codec on what the previous one left. The count is
  computed on \<^verbatim>\<open>int32\<close>; it is the integer \<open>upper - lower + 1\<close> whenever that lies between
  0 and \<open>2^31 - 1\<close>, and a negative count makes \<^verbatim>\<open>make\<close> panic.
\<close>

theorem Set_Array_Decode_envelope:
  assumes "PopBytes bts = Inr (buf, rest)"
  shows
    "(PopUint32 buf = Inr (0, b1) \<longrightarrow>
        Set_Decode child bts = Inr (VSet [], rest)
        \<and> Array_Decode child bts = Inr (VArray [], rest))
     \<and> (dimCount \<noteq> 0
          \<and> buf = BigEndian_PutUint32 dimCount @ BigEndian_PutUint32 r1
                    @ BigEndian_PutUint32 r2 @ BigEndian_PutUint32 upper
                    @ BigEndian_PutUint32 lower @ payload \<longrightarrow>
        Set_Decode child bts =
          (if sint (upper - lower + 1) < 0 then Inl MakeSliceLenOutOfRange
           else (case decode_elements child (nat (sint (upper - lower + 1))) payload of
                   Inl e \<Rightarrow> Inl e
                 | Inr (vs, _) \<Rightarrow> Inr (VSet vs, rest)))
        \<and> Array_Decode child bts =
          (if sint (upper - lower + 1) < 0 then Inl MakeSliceLenOutOfRange
           else (case decode_elements child (nat (sint (upper - lower + 1))) payload of
                   Inl e \<Rightarrow> Inl e
                 | Inr (vs, _) \<Rightarrow> Inr (VArray vs, rest))))
     \<and> (\<forall>n vs b. decode_elements child n payload = Inr (vs, b) \<longrightarrow> length vs = n)
     \<and> (0 \<le> sint upper - sint lower + 1 \<and> sint upper - sint lower + 1 < 2 ^ 31 \<longrightarrow>
          sint (upper - lower + 1) = sint upper - sint lower + 1)"
proof (intro conjI impI allI)
  assume z: "PopUint32 buf = Inr (0, b1)"
  with assms show "Set_Decode child bts = Inr (VSet [], rest)"
    by (simp add: Set_Decode_def)
  from z assms show "Array_Decode child bts = Inr (VArray [], rest)"
    by (simp add: Array_Decode_def)
next
  assume h: "dimCount \<noteq> 0
          \<and> buf = BigEndian_PutUint32 dimCount @ BigEndian_PutUint32 r1
                    @ BigEndian_PutUint32 r2 @ BigEndian_PutUint32 upper
                    @ BigEndian_PutUint32 lower @ payload"
  let ?n = "nat (sint (upper - lower + 1))"
  have loop: "Set_Decode_loop child 0 ?n payload (replicate ?n Nil) =
      (case decode_elements child ?n payload of
         Inl e \<Rightarrow> Inl e | Inr (vs, b) \<Rightarrow> Inr (vs, b))"
    using Set_Decode_loop_elements [of 0 ?n "replicate ?n Nil" child payload]
    by (simp split: sum.splits)
  show "Set_Decode child bts =
          (if sint (upper - lower + 1) < 0 then Inl MakeSliceLenOutOfRange
           else (case decode_elements child ?n payload of
                   Inl e \<Rightarrow> Inl e
                 | Inr (vs, _) \<Rightarrow> Inr (VSet vs, rest)))"
    using Set_Decode_header [OF assms, of dimCount r1 r2 upper lower payload child] h
    by (simp add: loop split: sum.splits)
  show "Array_Decode child bts =
          (if sint (upper - lower + 1) < 0 then Inl MakeSliceLenOutOfRange
           else (case decode_elements child ?n payload of
                   Inl e \<Rightarrow> Inl e
                 | Inr (vs, _) \<Rightarrow> Inr (VArray vs, rest)))"
    using Array_Decode_header [OF assms, of dimCount r1 r2 upper lower payload child] h
    by (simp add: Array_Decode_loop_eq_Set loop split: sum.splits)
next
  fix n vs b
  assume "decode_elements child n payload = Inr (vs, b)"
  then show "length vs = n" by (rule decode_elements_length)
next
  assume "0 \<le> sint upper - sint lower + 1 \<and> sint upper - sint lower + 1 < 2 ^ 31"
  then show "sint (upper - lower + 1) = sint upper - sint lower + 1"
    using elmCount_exact by blast
qed

theorem Set_Array_Decode_envelope_witness:
  "Set_Decode Int32_codec [0,0,0,8, 0,0,0,0, 1,2,3,4, 9] = Inr (VSet [], [9])
   \<and> Array_Decode Int32_codec [0,0,0,8, 0,0,0,0, 1,2,3,4, 9] = Inr (VArray [], [9])
   \<and> Set_Decode Int32_codec
        [0,0,0,36, 0,0,0,1, 0,0,0,0, 0,0,0,0, 0,0,0,2, 0,0,0,1,
         0,0,0,4, 0,0,0,7, 0,0,0,4, 0,0,0,9, 255]
       = Inr (VSet [VInt32 7, VInt32 9], [255])
   \<and> Array_Decode Int32_codec
        [0,0,0,36, 0,0,0,1, 0,0,0,0, 0,0,0,0, 0,0,0,2, 0,0,0,1,
         0,0,0,4, 0,0,0,7, 0,0,0,4, 0,0,0,9, 255]
       = Inr (VArray [VInt32 7, VInt32 9], [255])"
proof -
  have e0: "PopBytes [0,0,0,8, 0,0,0,0, 1,2,3,4, 9] = Inr ([0,0,0,0, 1,2,3,4], [9])"
    by (simp add: PopBytes_def PopUint32_def BigEndian_Uint32_def)
  have z: "PopUint32 [0,0,0,0, 1,2,3,4] = Inr (0, [1,2,3,4])"
    by (simp add: PopUint32_def BigEndian_Uint32_def)
  have e1: "PopBytes
        [0,0,0,36, 0,0,0,1, 0,0,0,0, 0,0,0,0, 0,0,0,2, 0,0,0,1,
         0,0,0,4, 0,0,0,7, 0,0,0,4, 0,0,0,9, 255]
     = Inr ([0,0,0,1, 0,0,0,0, 0,0,0,0, 0,0,0,2, 0,0,0,1,
         0,0,0,4, 0,0,0,7, 0,0,0,4, 0,0,0,9], [255])"
    by (simp add: PopBytes_def PopUint32_def BigEndian_Uint32_def)
  have b: "[0,0,0,1, 0,0,0,0, 0,0,0,0, 0,0,0,2, 0,0,0,1,
         0,0,0,4, 0,0,0,7, 0,0,0,4, 0,0,0,9]
     = BigEndian_PutUint32 1 @ BigEndian_PutUint32 0 @ BigEndian_PutUint32 0
         @ BigEndian_PutUint32 2 @ BigEndian_PutUint32 1
         @ [0,0,0,4, 0,0,0,7, 0,0,0,4, 0,0,0,9]"
    by (simp add: PutUint32_numerals)
  have n: "nat (sint (2 - 1 + 1 :: 32 word)) = 2" by simp
  have "decode_elements Int32_codec (Suc (Suc 0)) [0,0,0,4, 0,0,0,7, 0,0,0,4, 0,0,0,9]
      = Inr ([VInt32 7, VInt32 9], [])"
    by (simp add: Int32_codec_def Int32_Decode_def PopUint32_def BigEndian_Uint32_def)
  then have d: "decode_elements Int32_codec 2 [0,0,0,4, 0,0,0,7, 0,0,0,4, 0,0,0,9]
      = Inr ([VInt32 7, VInt32 9], [])"
    by (simp only: numeral_2_eq_2)
  from Set_Array_Decode_envelope [OF e0, of "[1,2,3,4]" Int32_codec, THEN conjunct1] z
  have "Set_Decode Int32_codec [0,0,0,8, 0,0,0,0, 1,2,3,4, 9] = Inr (VSet [], [9])
   \<and> Array_Decode Int32_codec [0,0,0,8, 0,0,0,0, 1,2,3,4, 9] = Inr (VArray [], [9])"
    by blast
  moreover
  from Set_Array_Decode_envelope [OF e1, of _ Int32_codec 1 0 0 2 1
      "[0,0,0,4, 0,0,0,7, 0,0,0,4, 0,0,0,9]", THEN conjunct2, THEN conjunct1] b
  have "Set_Decode Int32_codec
        [0,0,0,36, 0,0,0,1, 0,0,0,0, 0,0,0,0, 0,0,0,2, 0,0,0,1,
         0,0,0,4, 0,0,0,7, 0,0,0,4, 0,0,0,9, 255]
       = Inr (VSet [VInt32 7, VInt32 9], [255])
   \<and> Array_Decode Int32_codec
        [0,0,0,36, 0,0,0,1, 0,0,0,0, 0,0,0,0, 0,0,0,2, 0,0,0,1,
         0,0,0,4, 0,0,0,7, 0,0,0,4, 0,0,0,9, 255]
       = Inr (VArray [VInt32 7, VInt32 9], [255])"
    by (simp add: n d)
  ultimately show ?thesis by blast
qed

section \<open>Object decode\<close>











section \<open>Round trips of the scalar codecs\<close>

lemma round_trips_UUID: "length u = 16 \<Longrightarrow> round_trips UUID_codec (VUUID u)"
  unfolding round_trips_def
proof (intro allI)
  fix bts rest
  assume u: "length u = 16"
  have "Encode UUID_codec bts (VUUID u) = Inr (bts @ (BigEndian_PutUint32 16 @ u))"
    by (simp add: UUID_codec_def UUID_Encode_def PushUint32_def)
  moreover have "Decode UUID_codec ((BigEndian_PutUint32 16 @ u) @ rest) = Inr (VUUID u, rest)"
    using u by (simp add: UUID_codec_def UUID_Decode_def PopUint32_PutUint32 PopUUID_def)
  ultimately show "\<exists>enc. Encode UUID_codec bts (VUUID u) = Inr (bts @ enc)
      \<and> Decode UUID_codec (enc @ rest) = Inr (VUUID u, rest)" by blast
qed

lemma round_trips_String: "length s < 2 ^ 32 \<Longrightarrow> round_trips String_codec (VString s)"
  unfolding round_trips_def
proof (intro allI)
  fix bts rest
  assume s: "length s < 2 ^ 32"
  have "Encode String_codec bts (VString s)
      = Inr (bts @ (BigEndian_PutUint32 (of_nat (length s)) @ s))"
    by (simp add: String_codec_def String_Encode_def PushString_def PushBytes_def PushUint32_def)
  moreover have "Decode String_codec ((BigEndian_PutUint32 (of_nat (length s)) @ s) @ rest)
      = Inr (VString s, rest)"
    using PopBytes_PutUint32 [OF s, of rest]
    by (simp add: String_codec_def String_Decode_def PopString_def)
  ultimately show "\<exists>enc. Encode String_codec bts (VString s) = Inr (bts @ enc)
      \<and> Decode String_codec (enc @ rest) = Inr (VString s, rest)" by blast
qed

lemma round_trips_Bytes: "length s < 2 ^ 32 \<Longrightarrow> round_trips Bytes_codec (VBytes s)"
  unfolding round_trips_def
proof (intro allI)
  fix bts rest
  assume s: "length s < 2 ^ 32"
  have "Encode Bytes_codec bts (VBytes s)
      = Inr (bts @ (BigEndian_PutUint32 (of_nat (length s)) @ s))"
    by (simp add: Bytes_codec_def Bytes_Encode_def PushBytes_def PushUint32_def)
  moreover have "Decode Bytes_codec ((BigEndian_PutUint32 (of_nat (length s)) @ s) @ rest)
      = Inr (VBytes s, rest)"
    using PopBytes_PutUint32 [OF s, of rest]
    by (simp add: Bytes_codec_def Bytes_Decode_def)
  ultimately show "\<exists>enc. Encode Bytes_codec bts (VBytes s) = Inr (bts @ enc)
      \<and> Decode Bytes_codec (enc @ rest) = Inr (VBytes s, rest)" by blast
qed

lemma round_trips_Int16: "round_trips Int16_codec (VInt16 x)"
  unfolding round_trips_def
proof (intro allI)
  fix bts rest
  have "Encode Int16_codec bts (VInt16 x)
      = Inr (bts @ (BigEndian_PutUint32 2 @ BigEndian_PutUint16 x))"
    by (simp add: Int16_codec_def Int16_Encode_def PushUint32_def PushUint16_def)
  moreover have "Decode Int16_codec ((BigEndian_PutUint32 2 @ BigEndian_PutUint16 x) @ rest)
      = Inr (VInt16 x, rest)"
    by (simp add: Int16_codec_def Int16_Decode_def PopUint32_PutUint32 PopUint16_PutUint16)
  ultimately show "\<exists>enc. Encode Int16_codec bts (VInt16 x) = Inr (bts @ enc)
      \<and> Decode Int16_codec (enc @ rest) = Inr (VInt16 x, rest)" by blast
qed

lemma round_trips_Int32: "round_trips Int32_codec (VInt32 x)"
  unfolding round_trips_def
proof (intro allI)
  fix bts rest
  have "Encode Int32_codec bts (VInt32 x)
      = Inr (bts @ (BigEndian_PutUint32 4 @ BigEndian_PutUint32 x))"
    by (simp add: Int32_codec_def Int32_Encode_def PushUint32_def)
  moreover have "Decode Int32_codec ((BigEndian_PutUint32 4 @ BigEndian_PutUint32 x) @ rest)
      = Inr (VInt32 x, rest)"
    by (simp add: Int32_codec_def Int32_Decode_def PopUint32_PutUint32)
  ultimately show "\<exists>enc. Encode Int32_codec bts (VInt32 x) = Inr (bts @ enc)
      \<and> Decode Int32_codec (enc @ rest) = Inr (VInt32 x, rest)" by blast
qed

lemma round_trips_Int64: "round_trips Int64_codec (VInt64 x)"
  unfolding round_trips_def
proof (intro allI)
  fix bts rest
  have "Encode Int64_codec bts (VInt64 x)
      = Inr (bts @ (BigEndian_PutUint32 8 @ BigEndian_PutUint64 x))"
    by (simp add: Int64_codec_def Int64_Encode_def PushUint32_def PushUint64_def)
  moreover have "Decode Int64_codec ((BigEndian_PutUint32 8 @ BigEndian_PutUint64 x) @ rest)
      = Inr (VInt64 x, rest)"
    by (simp add: Int64_codec_def Int64_Decode_def PopUint32_PutUint32 PopUint64_PutUint64)
  ultimately show "\<exists>enc. Encode Int64_codec bts (VInt64 x) = Inr (bts @ enc)
      \<and> Decode Int64_codec (enc @ rest) = Inr (VInt64 x, rest)" by blast
qed

lemma round_trips_Float32: "round_trips Float32_codec (VFloat32 x)"
  unfolding round_trips_def
proof (intro allI)
  fix bts rest
  have "Encode Float32_codec bts (VFloat32 x)
      = Inr (bts @ (BigEndian_PutUint32 4 @ BigEndian_PutUint32 x))"
    by (simp add: Float32_codec_def Float32_Encode_def PushUint32_def)
  moreover have "Decode Float32_codec ((BigEndian_PutUint32 4 @ BigEndian_PutUint32 x) @ rest)
      = Inr (VFloat32 x, rest)"
    by (simp add: Float32_codec_def Float32_Decode_def PopUint32_PutUint32)
  ultimately show "\<exists>enc. Encode Float32_codec bts (VFloat32 x) = Inr (bts @ enc)
      \<and> Decode Float32_codec (enc @ rest) = Inr (VFloat32 x, rest)" by blast
qed

lemma round_trips_Float64: "round_trips Float64_codec (VFloat64 x)"
  unfolding round_trips_def
proof (intro allI)
  fix bts rest
  have "Encode Float64_codec bts (VFloat64 x)
      = Inr (bts @ (BigEndian_PutUint32 8 @ BigEndian_PutUint64 x))"
    by (simp add: Float64_codec_def Float64_Encode_def PushUint32_def PushUint64_def)
  moreover have "Decode Float64_codec ((BigEndian_PutUint32 8 @ BigEndian_PutUint64 x) @ rest)
      = Inr (VFloat64 x, rest)"
    by (simp add: Float64_codec_def Float64_Decode_def PopUint32_PutUint32 PopUint64_PutUint64)
  ultimately show "\<exists>enc. Encode Float64_codec bts (VFloat64 x) = Inr (bts @ enc)
      \<and> Decode Float64_codec (enc @ rest) = Inr (VFloat64 x, rest)" by blast
qed

lemma round_trips_Bool: "round_trips Bool_codec (VBool x)"
  unfolding round_trips_def
proof (intro allI)
  fix bts rest
  have "Encode Bool_codec bts (VBool x)
      = Inr (bts @ (BigEndian_PutUint32 1 @ [if x then 1 else 0]))"
    by (simp add: Bool_codec_def Bool_Encode_def PushUint32_def PushUint8_def)
  moreover have "Decode Bool_codec ((BigEndian_PutUint32 1 @ [if x then 1 else 0]) @ rest)
      = Inr (VBool x, rest)"
    by (simp add: Bool_codec_def Bool_Decode_def PopUint32_PutUint32 PopUint8_Cons)
  ultimately show "\<exists>enc. Encode Bool_codec bts (VBool x) = Inr (bts @ enc)
      \<and> Decode Bool_codec (enc @ rest) = Inr (VBool x, rest)" by blast
qed

lemma round_trips_JSON:
  assumes "Marshal J v = Inr buf" "Unmarshal J buf = Inr v" "length buf + 1 < 2 ^ 32"
  shows "round_trips (JSON_codec J) v"
  unfolding round_trips_def
proof (intro allI)
  fix bts rest
  have n: "unat (word_of_nat (1 + length buf) - 1 :: 32 word) = length buf"
    using assms(3) by (simp add: unat_of_nat take_bit_nat_eq_self flip: take_bit_eq_mod)
  have "Encode (JSON_codec J) bts v
      = Inr (bts @ (BigEndian_PutUint32 (of_nat (1 + length buf)) @ 1 # buf))"
    using assms(1) by (simp add: JSON_codec_def JSON_Encode_def PushUint32_def PushUint8_def)
  moreover have "Decode (JSON_codec J)
        ((BigEndian_PutUint32 (of_nat (1 + length buf)) @ 1 # buf) @ rest) = Inr (v, rest)"
    using assms(2) n
    by (simp add: JSON_codec_def JSON_Decode_def PopUint32_PutUint32 PopUint8_Cons)
  ultimately show "\<exists>enc. Encode (JSON_codec J) bts v = Inr (bts @ enc)
      \<and> Decode (JSON_codec J) (enc @ rest) = Inr (v, rest)" by blast
qed

lemma sint_word_of_int_64:
  "- (2 ^ 63) \<le> x \<Longrightarrow> x < 2 ^ 63 \<Longrightarrow> sint (word_of_int x :: 64 word) = x"
  by (simp add: signed_of_int signed_take_bit_int_eq_self)

lemma int64_div_exact:
  assumes "sint d smod 1000 = 0"
  shows "int64_div d 1000 * 1000 = d"
proof -
  have "sint d sdiv 1000 * 1000 + sint d smod 1000 = sint d"
    by (rule sdiv_mult_smod_eq)
  with assms have "sint d sdiv 1000 * 1000 = sint d" by simp
  then have "(word_of_int (sint d sdiv 1000 * 1000) :: 64 word) = word_of_int (sint d)"
    by simp
  then show ?thesis by (simp add: int64_div_def)
qed

lemma round_trips_Duration:
  assumes "sint d smod 1000 = 0"
  shows "round_trips Duration_codec (VDuration d)"
  unfolding round_trips_def
proof (intro allI)
  fix bts rest
  let ?enc = "BigEndian_PutUint32 16 @ BigEndian_PutUint64 (int64_div d 1000)
               @ BigEndian_PutUint32 0 @ BigEndian_PutUint32 0"
  have "Encode Duration_codec bts (VDuration d) = Inr (bts @ ?enc)"
    by (simp add: Duration_codec_def Duration_Encode_def PushUint32_def PushUint64_def)
  moreover have "Decode Duration_codec (?enc @ rest) = Inr (VDuration d, rest)"
    using int64_div_exact [OF assms]
    by (simp add: Duration_codec_def Duration_Decode_def PopUint32_PutUint32
          PopUint64_PutUint64)
  ultimately show "\<exists>enc. Encode Duration_codec bts (VDuration d) = Inr (bts @ enc)
      \<and> Decode Duration_codec (enc @ rest) = Inr (VDuration d, rest)" by blast
qed

lemma sdiv_smod_pos:
  fixes M c :: int
  assumes "0 < c"
  shows "(0 \<le> M smod c \<longrightarrow> M sdiv c = M div c \<and> M smod c = M mod c)
       \<and> (M smod c < 0 \<longrightarrow> M sdiv c = M div c + 1 \<and> M smod c = M mod c - c)"
proof (cases "0 \<le> M")
  case True
  moreover have "0 \<le> M mod c" using assms by simp
  ultimately show ?thesis
    using assms by (simp add: signed_divide_int_def signed_modulo_int_def sgn_if not_less)
next
  case False
  then have neg: "M < 0" by simp
  have sd: "M sdiv c = - ((- M) div c)" and sm: "M smod c = - ((- M) mod c)"
    using neg assms by (simp_all add: signed_divide_int_def signed_modulo_int_def sgn_if)
  show ?thesis
  proof (cases "M mod c = 0")
    case True
    then have "(- M) mod c = 0" "(- M) div c = - (M div c)"
      using assms by (simp_all add: zmod_zminus1_eq_if zdiv_zminus1_eq_if)
    with sd sm True show ?thesis by simp
  next
    case False
    then have "(- M) mod c = c - M mod c" "(- M) div c = - (M div c) - 1"
      using assms by (simp_all add: zmod_zminus1_eq_if zdiv_zminus1_eq_if)
    moreover have "0 \<le> M mod c" "M mod c < c"
      using assms pos_mod_sign [of c M] pos_mod_bound [of c M] by simp_all
    ultimately show ?thesis using sd sm False by simp
  qed
qed

lemma smod_lower:
  fixes M c :: int
  shows "0 < c \<Longrightarrow> - c < M smod c"
proof -
  assume c: "0 < c"
  define r where "r = \<bar>M\<bar> mod c"
  have "0 \<le> r" "r < c" using c by (simp_all add: r_def)
  moreover have "M smod c = sgn M * r" using c by (simp add: signed_modulo_int_def r_def)
  ultimately show ?thesis using c by (auto simp: sgn_if)
qed

lemma sdiv_small:
  fixes x c :: int
  shows "0 < c \<Longrightarrow> - c < x \<Longrightarrow> x < c \<Longrightarrow> x sdiv c = 0"
  by (simp add: signed_divide_int_def sgn_if div_pos_pos_trivial)

lemma time_Unix_normal:
  assumes "sint ns = x" "0 \<le> x" "x < 1000000000"
  shows "time_Unix s ns = \<lparr>sec = s, nsec = x\<rparr>"
  using assms by (simp add: time_Unix_def)

lemma time_Unix_negative:
  assumes "sint ns = x" "- 1000000000 < x" "x < 0"
  shows "time_Unix s ns = \<lparr>sec = s - 1, nsec = x + 1000000000\<rparr>"
proof -
  have z: "int64_div ns 1000000000 = 0"
    using assms sdiv_small [of 1000000000 x] by (simp add: int64_div_def)
  have "word_of_int (sint ns) = ns" by simp
  then have "ns = word_of_int x" using assms(1) by simp
  then have "ns + 1000000000 = word_of_int (x + 1000000000)" by simp
  then have p: "sint (ns + 1000000000) = x + 1000000000"
    using sint_word_of_int_64 [of "x + 1000000000"] assms by simp
  show ?thesis
    unfolding time_Unix_def Let_def z using assms p by simp
qed

lemma DateTime_decode_value:
  fixes S u :: int
  assumes u: "0 \<le> u" "u < 1000000"
    and lo: "- (2 ^ 63) \<le> S * 1000000 + u" and hi: "S * 1000000 + u < 2 ^ 63"
  shows "time_Unix (946684800 + int64_div (word_of_int (S * 1000000 + u)) 1000000)
           (1000 * int64_rem (word_of_int (S * 1000000 + u)) 1000000)
         = \<lparr>sec = word_of_int (946684800 + S), nsec = 1000 * u\<rparr>"
proof -
  define M where "M = S * 1000000 + u"
  have sM: "sint (word_of_int M :: 64 word) = M"
    using lo hi unfolding M_def by (rule sint_word_of_int_64)
  have dm: "M div 1000000 = S" "M mod 1000000 = u"
    using u unfolding M_def by simp_all
  have q: "int64_div (word_of_int M) 1000000 = word_of_int (M sdiv 1000000)"
    and r: "int64_rem (word_of_int M) 1000000 = word_of_int (M smod 1000000)"
    by (simp_all add: int64_div_def int64_rem_def sM)
  note ss = sdiv_smod_pos [of 1000000 M, simplified]
  show ?thesis
  proof (cases "0 \<le> M smod 1000000")
    case True
    with ss dm have e: "M sdiv 1000000 = S" "M smod 1000000 = u" by simp_all
    have "(1000 * word_of_int u :: 64 word) = word_of_int (1000 * u)" by simp
    then have "sint (1000 * word_of_int u :: 64 word) = 1000 * u"
      using sint_word_of_int_64 [of "1000 * u"] u by simp
    from time_Unix_normal [OF this, of "946684800 + word_of_int S"] u
    show ?thesis
      unfolding M_def [symmetric] q r e by simp
  next
    case False
    with ss dm have e: "M sdiv 1000000 = S + 1" "M smod 1000000 = u - 1000000" by simp_all
    from smod_lower [of 1000000 M] e have u1: "0 < u" by simp
    have "(1000 * word_of_int (u - 1000000) :: 64 word) = word_of_int (1000 * u - 1000000000)"
      by simp
    then have "sint (1000 * word_of_int (u - 1000000) :: 64 word) = 1000 * u - 1000000000"
      using sint_word_of_int_64 [of "1000 * u - 1000000000"] u by simp
    from time_Unix_negative [OF this, of "946684800 + word_of_int (S + 1)"] u u1
    show ?thesis
      unfolding M_def [symmetric] q r e by simp
  qed
qed

lemma DateTime_encode_value:
  assumes "0 \<le> nsec t" "nsec t < 1000000000"
  shows "(Time_Unix t - 946684800) * 1000000
           + int64_div (Time_Sub t (time_Unix (Time_Unix t) 0)) 1000
         = word_of_int ((sint (sec t) - 946684800) * 1000000 + nsec t div 1000)"
proof -
  have z: "time_Unix (sec t) 0 = \<lparr>sec = sec t, nsec = 0\<rparr>"
    by (rule time_Unix_normal) simp_all
  have sub: "Time_Sub t \<lparr>sec = sec t, nsec = 0\<rparr> = word_of_int (nsec t)"
    using assms by (simp add: Time_Sub_def)
  have sn: "sint (word_of_int (nsec t) :: 64 word) = nsec t"
    using assms by (intro sint_word_of_int_64) simp_all
  have sd: "nsec t sdiv 1000 = nsec t div 1000"
    using assms(1) by (simp add: signed_divide_int_def sgn_if)
  have dv: "int64_div (word_of_int (nsec t)) 1000 = word_of_int (nsec t div 1000)"
    by (simp add: int64_div_def sn sd)
  have "word_of_int (sint (sec t)) = sec t" by simp
  then have "(sec t - 946684800) * 1000000 + word_of_int (nsec t div 1000)
      = (word_of_int ((sint (sec t) - 946684800) * 1000000 + nsec t div 1000) :: 64 word)"
    by simp
  then show ?thesis by (simp add: Time_Unix_def z sub dv)
qed

lemma round_trips_DateTime:
  assumes "0 \<le> nsec t" "nsec t < 1000000000" "nsec t mod 1000 = 0"
    and "- (2 ^ 63) \<le> (sint (sec t) - 946684800) * 1000000 + nsec t div 1000"
    and "(sint (sec t) - 946684800) * 1000000 + nsec t div 1000 < 2 ^ 63"
  shows "round_trips DateTime_codec (VTime t)"
  unfolding round_trips_def
proof (intro allI)
  fix bts rest
  let ?M = "(sint (sec t) - 946684800) * 1000000 + nsec t div 1000"
  let ?enc = "BigEndian_PutUint32 8 @ BigEndian_PutUint64 (word_of_int ?M)"
  have u: "0 \<le> nsec t div 1000" "nsec t div 1000 < 1000000"
    using assms(1,2) by simp_all
  have nsb: "1000 * (nsec t div 1000) = nsec t"
    using assms(3) by (simp add: mod_eq_0_iff_dvd)
  have "word_of_int (sint (sec t)) = sec t" by simp
  then have s: "(word_of_int (946684800 + (sint (sec t) - 946684800)) :: 64 word) = sec t"
    by simp
  have "DateTime_Encode bts (VTime t)
      = Inr (PushUint64 (PushUint32 bts 8) (word_of_int ?M))"
    by (simp only: DateTime_Encode_def val.simps Let_def
          DateTime_encode_value [OF assms(1,2)])
  then have "Encode DateTime_codec bts (VTime t) = Inr (bts @ ?enc)"
    by (simp add: DateTime_codec_def PushUint32_def PushUint64_def)
  moreover have "Decode DateTime_codec (?enc @ rest) = Inr (VTime t, rest)"
    using DateTime_decode_value [OF u assms(4,5)]
    by (simp add: DateTime_codec_def DateTime_Decode_def Let_def PopUint32_PutUint32
          PopUint64_PutUint64 s nsb)
  ultimately show "\<exists>enc. Encode DateTime_codec bts (VTime t) = Inr (bts @ enc)
      \<and> Decode DateTime_codec (enc @ rest) = Inr (VTime t, rest)" by blast
qed

lemma int64_div_truncates:
  "int64_div d 1000 * 1000 = d - int64_rem d 1000"
proof -
  have "sint d sdiv 1000 * 1000 + sint d smod 1000 = sint d"
    by (rule sdiv_mult_smod_eq)
  then have "sint d sdiv 1000 * 1000 = sint d - sint d smod 1000" by simp
  then have "(word_of_int (sint d sdiv 1000 * 1000) :: 64 word)
      = word_of_int (sint d - sint d smod 1000)"
    by (rule arg_cong)
  then show ?thesis by (simp add: int64_div_def int64_rem_def)
qed

lemma comes_back_Duration:
  "comes_back Duration_codec (VDuration d) (VDuration (d - int64_rem d 1000))"
  unfolding comes_back_def
proof (intro allI)
  fix bts rest
  let ?enc = "BigEndian_PutUint32 16 @ BigEndian_PutUint64 (int64_div d 1000)
               @ BigEndian_PutUint32 0 @ BigEndian_PutUint32 0"
  have "Encode Duration_codec bts (VDuration d) = Inr (bts @ ?enc)"
    by (simp add: Duration_codec_def Duration_Encode_def PushUint32_def PushUint64_def)
  moreover have "Decode Duration_codec (?enc @ rest)
      = Inr (VDuration (d - int64_rem d 1000), rest)"
    using int64_div_truncates [of d]
    by (simp add: Duration_codec_def Duration_Decode_def PopUint32_PutUint32
          PopUint64_PutUint64)
  ultimately show "\<exists>enc. Encode Duration_codec bts (VDuration d) = Inr (bts @ enc)
      \<and> Decode Duration_codec (enc @ rest) = Inr (VDuration (d - int64_rem d 1000), rest)"
    by blast
qed

lemma comes_back_DateTime:
  assumes "0 \<le> nsec t" "nsec t < 1000000000"
    and "- (2 ^ 63) \<le> (sint (sec t) - 946684800) * 1000000 + nsec t div 1000"
    and "(sint (sec t) - 946684800) * 1000000 + nsec t div 1000 < 2 ^ 63"
  shows "comes_back DateTime_codec (VTime t)
           (VTime \<lparr>sec = sec t, nsec = 1000 * (nsec t div 1000)\<rparr>)"
  unfolding comes_back_def
proof (intro allI)
  fix bts rest
  let ?M = "(sint (sec t) - 946684800) * 1000000 + nsec t div 1000"
  let ?enc = "BigEndian_PutUint32 8 @ BigEndian_PutUint64 (word_of_int ?M)"
  have u: "0 \<le> nsec t div 1000" "nsec t div 1000 < 1000000"
    using assms(1,2) by simp_all
  have "word_of_int (sint (sec t)) = sec t" by simp
  then have s: "(word_of_int (946684800 + (sint (sec t) - 946684800)) :: 64 word) = sec t"
    by simp
  have "DateTime_Encode bts (VTime t)
      = Inr (PushUint64 (PushUint32 bts 8) (word_of_int ?M))"
    by (simp only: DateTime_Encode_def val.simps Let_def
          DateTime_encode_value [OF assms(1,2)])
  then have "Encode DateTime_codec bts (VTime t) = Inr (bts @ ?enc)"
    by (simp add: DateTime_codec_def PushUint32_def PushUint64_def)
  moreover have "Decode DateTime_codec (?enc @ rest)
      = Inr (VTime \<lparr>sec = sec t, nsec = 1000 * (nsec t div 1000)\<rparr>, rest)"
    using DateTime_decode_value [OF u assms(3,4)]
    by (simp add: DateTime_codec_def DateTime_Decode_def Let_def PopUint32_PutUint32
          PopUint64_PutUint64 s)
  ultimately show "\<exists>enc. Encode DateTime_codec bts (VTime t) = Inr (bts @ enc)
      \<and> Decode DateTime_codec (enc @ rest)
          = Inr (VTime \<lparr>sec = sec t, nsec = 1000 * (nsec t div 1000)\<rparr>, rest)"
    by blast
qed

text \<open>
  Claim C1, as amended. Decoding the bytes produced by encoding \<open>v\<close> yields \<open>v\<close>
  \<^item> for every UUID (16 bytes), every String and Bytes value shorter than \<open>2^32\<close> bytes, and
    every Int16, Int32, Int64, Float32 (as a bit pattern), Float64 and Bool value,
    including zero, negative, least and greatest values;
  \<^item> for every DateTime that is a whole number of microseconds and whose microsecond
    offset from 2000-01-01 fits \<^verbatim>\<open>int64\<close>, before and after the epoch anchor;
  \<^item> for every Duration that is a whole number of microseconds (a multiple of 1000 ns);
  \<^item> for every JSON value that \<^verbatim>\<open>json.Marshal\<close> and \<^verbatim>\<open>json.Unmarshal\<close> themselves take to
    text and back, the text being shorter than \<open>2^32 - 1\<close> bytes.

  Every Duration \<open>d\<close> comes back as \<open>d - d % 1000\<close>, truncated towards zero to the
  microsecond, and every DateTime whose microsecond offset fits \<^verbatim>\<open>int64\<close> comes back with
  its nanosecond part truncated to the microsecond.
\<close>

theorem scalar_round_trip:
  "(length u = 16 \<longrightarrow> round_trips UUID_codec (VUUID u))
   \<and> (length s < 2 ^ 32 \<longrightarrow> round_trips String_codec (VString s))
   \<and> (length b < 2 ^ 32 \<longrightarrow> round_trips Bytes_codec (VBytes b))
   \<and> round_trips Int16_codec (VInt16 i16)
   \<and> round_trips Int32_codec (VInt32 i32)
   \<and> round_trips Int64_codec (VInt64 i64)
   \<and> round_trips Float32_codec (VFloat32 f32)
   \<and> round_trips Float64_codec (VFloat64 f64)
   \<and> round_trips Bool_codec (VBool bl)
   \<and> (0 \<le> nsec t \<and> nsec t < 1000000000 \<and> nsec t mod 1000 = 0
        \<and> - (2 ^ 63) \<le> (sint (sec t) - 946684800) * 1000000 + nsec t div 1000
        \<and> (sint (sec t) - 946684800) * 1000000 + nsec t div 1000 < 2 ^ 63
        \<longrightarrow> round_trips DateTime_codec (VTime t))
   \<and> (sint d smod 1000 = 0 \<longrightarrow> round_trips Duration_codec (VDuration d))
   \<and> (Marshal J v = Inr buf \<and> Unmarshal J buf = Inr v \<and> length buf + 1 < 2 ^ 32
        \<longrightarrow> round_trips (JSON_codec J) v)
   \<and> comes_back Duration_codec (VDuration d') (VDuration (d' - int64_rem d' 1000))
   \<and> (0 \<le> nsec t' \<and> nsec t' < 1000000000
        \<and> - (2 ^ 63) \<le> (sint (sec t') - 946684800) * 1000000 + nsec t' div 1000
        \<and> (sint (sec t') - 946684800) * 1000000 + nsec t' div 1000 < 2 ^ 63
        \<longrightarrow> comes_back DateTime_codec (VTime t')
              (VTime \<lparr>sec = sec t', nsec = 1000 * (nsec t' div 1000)\<rparr>))"
  by (intro conjI impI; (elim conjE)?;
      (erule round_trips_UUID | erule round_trips_String | erule round_trips_Bytes
       | rule round_trips_Int16 | rule round_trips_Int32 | rule round_trips_Int64
       | rule round_trips_Float32 | rule round_trips_Float64 | rule round_trips_Bool
       | (rule round_trips_DateTime; assumption) | erule round_trips_Duration
       | (rule round_trips_JSON; assumption) | rule comes_back_Duration
       | (rule comes_back_DateTime; assumption)))

theorem scalar_round_trip_witness:
  "round_trips UUID_codec (VUUID [0, 1, 2, 3, 4, 5, 6, 7, 8, 9, 10, 11, 12, 13, 14, 15])
   \<and> round_trips String_codec (VString [104, 105])
   \<and> round_trips Bytes_codec (VBytes [])
   \<and> round_trips Int64_codec (VInt64 (- 9223372036854775808))
   \<and> round_trips DateTime_codec (VTime \<lparr>sec = 946684799, nsec = 500000000\<rparr>)
   \<and> round_trips Duration_codec (VDuration (- 5000))
   \<and> round_trips (JSON_codec \<lparr>Marshal = \<lambda>v. Inr [110, 117, 108, 108],
                                 Unmarshal = \<lambda>b. Inr Nil\<rparr>) Nil
   \<and> comes_back Duration_codec (VDuration (- 9223372036854775808))
         (VDuration (- 9223372036854775000))
   \<and> comes_back DateTime_codec (VTime \<lparr>sec = 946684799, nsec = 999999999\<rparr>)
         (VTime \<lparr>sec = 946684799, nsec = 999999000\<rparr>)"
proof -
  have d: "sint (- 5000 :: 64 word) smod 1000 = 0"
    by (simp add: signed_modulo_int_def)
  have r: "(- 9223372036854775808 :: 64 word) - int64_rem (- 9223372036854775808) 1000
      = - 9223372036854775000"
    by (simp add: int64_rem_def signed_modulo_int_def)
  show ?thesis
    using scalar_round_trip
       [where u = "[0, 1, 2, 3, 4, 5, 6, 7, 8, 9, 10, 11, 12, 13, 14, 15]"
        and s = "[104, 105]" and b = "[]" and ?i64.0 = "- 9223372036854775808"
        and t = "\<lparr>sec = 946684799, nsec = 500000000\<rparr>" and d = "- 5000"
        and J = "\<lparr>Marshal = \<lambda>v. Inr [110, 117, 108, 108], Unmarshal = \<lambda>b. Inr Nil\<rparr>"
        and v = Nil and buf = "[110, 117, 108, 108]"
        and d' = "- 9223372036854775808"
        and t' = "\<lparr>sec = 946684799, nsec = 999999999\<rparr>"] d r
    by simp
qed

text \<open>
  The claim as first stated fails at the greatest Duration: \<open>2^63 - 1\<close> nanoseconds are
  sent as 9223372036854775 microseconds and come back as 9223372036854775000 nanoseconds.
  It fails as well at a DateTime with a nanosecond part below the microsecond, and at a
  DateTime of whole microseconds whose microsecond offset does not fit \<^verbatim>\<open>int64\<close>: Unix
  second \<open>2^62\<close> comes back as Unix second 0.
\<close>

theorem scalar_round_trip_counterexample:
  "Duration_Encode [] (VDuration 9223372036854775807)
     = Inr [0, 0, 0, 16, 0, 32, 196, 155, 165, 227, 83, 247, 0, 0, 0, 0, 0, 0, 0, 0]
   \<and> Duration_Decode [0, 0, 0, 16, 0, 32, 196, 155, 165, 227, 83, 247, 0, 0, 0, 0, 0, 0, 0, 0]
     = Inr (VDuration 9223372036854775000, [])
   \<and> VDuration 9223372036854775000 \<noteq> VDuration 9223372036854775807
   \<and> DateTime_Encode [] (VTime \<lparr>sec = 946684800, nsec = 1\<rparr>)
     = Inr [0, 0, 0, 8, 0, 0, 0, 0, 0, 0, 0, 0]
   \<and> DateTime_Decode [0, 0, 0, 8, 0, 0, 0, 0, 0, 0, 0, 0]
     = Inr (VTime \<lparr>sec = 946684800, nsec = 0\<rparr>, [])
   \<and> VTime \<lparr>sec = 946684800, nsec = 0\<rparr> \<noteq> VTime \<lparr>sec = 946684800, nsec = 1\<rparr>
   \<and> DateTime_Encode [] (VTime \<lparr>sec = 4611686018427387904, nsec = 0\<rparr>)
     = Inr [0, 0, 0, 8, 255, 252, 162, 254, 196, 200, 32, 0]
   \<and> DateTime_Decode [0, 0, 0, 8, 255, 252, 162, 254, 196, 200, 32, 0]
     = Inr (VTime \<lparr>sec = 0, nsec = 0\<rparr>, [])
   \<and> VTime \<lparr>sec = 0, nsec = 0\<rparr> \<noteq> VTime \<lparr>sec = 4611686018427387904, nsec = 0\<rparr>"
proof -
  have dur: "Duration_Encode [] (VDuration 9223372036854775807)
     = Inr [0, 0, 0, 16, 0, 32, 196, 155, 165, 227, 83, 247, 0, 0, 0, 0, 0, 0, 0, 0]
   \<and> Duration_Decode [0, 0, 0, 16, 0, 32, 196, 155, 165, 227, 83, 247, 0, 0, 0, 0, 0, 0, 0, 0]
     = Inr (VDuration 9223372036854775000, [])
   \<and> VDuration 9223372036854775000 \<noteq> VDuration 9223372036854775807"
    by (simp add: Duration_Encode_def Duration_Decode_def PushUint32_def PushUint64_def
          BigEndian_PutUint32_def BigEndian_PutUint64_def int64_div_def signed_divide_int_def
          PopUint32_def PopUint64_def BigEndian_Uint32_def BigEndian_Uint64_def)
  have dt: "DateTime_Encode [] (VTime \<lparr>sec = 946684800, nsec = 1\<rparr>)
     = Inr [0, 0, 0, 8, 0, 0, 0, 0, 0, 0, 0, 0]
   \<and> DateTime_Decode [0, 0, 0, 8, 0, 0, 0, 0, 0, 0, 0, 0]
     = Inr (VTime \<lparr>sec = 946684800, nsec = 0\<rparr>, [])
   \<and> DateTime_Encode [] (VTime \<lparr>sec = 4611686018427387904, nsec = 0\<rparr>)
     = Inr [0, 0, 0, 8, 255, 252, 162, 254, 196, 200, 32, 0]
   \<and> DateTime_Decode [0, 0, 0, 8, 255, 252, 162, 254, 196, 200, 32, 0]
     = Inr (VTime \<lparr>sec = 0, nsec = 0\<rparr>, [])"
    by (simp add: DateTime_Encode_def DateTime_Decode_def Time_Unix_def Time_Sub_def
          time_Unix_def int64_div_def int64_rem_def signed_divide_int_def
          signed_modulo_int_def Let_def PushUint32_def PushUint64_def
          BigEndian_PutUint32_def BigEndian_PutUint64_def
          PopUint32_def PopUint64_def BigEndian_Uint32_def BigEndian_Uint64_def)
  have ne: "VTime \<lparr>sec = 946684800, nsec = 0\<rparr> \<noteq> VTime \<lparr>sec = 946684800, nsec = 1\<rparr>"
    "VTime \<lparr>sec = 0, nsec = 0\<rparr> \<noteq> VTime \<lparr>sec = 4611686018427387904, nsec = 0\<rparr>"
    by simp_all
  from dur dt ne show ?thesis by blast
qed

end
